theory Spec2Isabelle
  imports Main "HOL-Library.Word" "HOL-Library.Signed_Division"
begin

unbundle bit_operations_syntax

section \<open>Machine integers of the C source\<close>

text \<open>
  \<open>int64_t\<close> and \<open>uint64_t\<close> are 64-bit words, \<open>int\<close> and \<open>__u32\<close> are 32-bit words.
  Addition, subtraction and multiplication wrap around; where the C type is signed the
  value is read with \<open>sint\<close> and compared with \<open><s\<close>. The small counts of the
  program that never leave their range (enumeration values, the result of \<open>poll\<close> and
  \<open>read\<close>) are \<open>int\<close>.
\<close>

type_synonym s64 = "64 word"
type_synonym u64 = "64 word"
type_synonym u32 = "32 word"
type_synonym cint = "32 word"
type_synonym byte = "8 word"

text \<open>C's \<open>/\<close> and \<open>%\<close> on \<open>int64_t\<close>: the quotient is truncated towards zero.\<close>

definition div_s64 :: "s64 \<Rightarrow> s64 \<Rightarrow> s64" where
  "div_s64 a b = word_of_int (sint a sdiv sint b)"

definition mod_s64 :: "s64 \<Rightarrow> s64 \<Rightarrow> s64" where
  "mod_s64 a b = word_of_int (sint a smod sint b)"

section \<open>Declarations of the headers\<close>

text \<open>
  Modelled from the spec: \<open>sysoff.h\<close> is not among the sources. The spec orders the
  methods Cross, Precise, Extended, Basic, the prober walks from \<open>SYSOFF_CROSS + 1\<close> up
  to \<open>SYSOFF_LAST\<close>, and the source tests a result with \<open>>= 0\<close> and \<open>< 0\<close>, so the
  failure code is negative and the methods count up from zero.
\<close>

definition SYSOFF_RUN_TIME_MISSING :: int where
  "SYSOFF_RUN_TIME_MISSING = - 1"

definition SYSOFF_CROSS :: int where
  "SYSOFF_CROSS = 0"

definition SYSOFF_PRECISE :: int where
  "SYSOFF_PRECISE = 1"

definition SYSOFF_EXTENDED :: int where
  "SYSOFF_EXTENDED = 2"

definition SYSOFF_BASIC :: int where
  "SYSOFF_BASIC = 3"

definition SYSOFF_LAST :: int where
  "SYSOFF_LAST = 4"

text \<open>
  Modelled from the spec: \<open>linux/ptp_clock.h\<close> is not among the sources. A device
  timestamp has 64-bit signed seconds and 32-bit nanoseconds; the kernel header declares
  the nanoseconds unsigned and adds a reserved word.
\<close>

record ptp_clock_time =
  sec :: s64
  nsec :: u32
  reserved :: u32

text \<open>
  Modelled from the spec: the device's maximum sample count, 25 in the kernel header
  and in the spec's example. The Extended request carries \<open>PTP_MAX_SAMPLES\<close> rows of
  three timestamps, read by the source as one flat array from \<open>&pso.ts[0][0]\<close>; the
  Basic request carries \<open>2 * PTP_MAX_SAMPLES + 1\<close> timestamps.
\<close>

definition PTP_MAX_SAMPLES :: cint where
  "PTP_MAX_SAMPLES = 25"

record ptp_sys_offset_precise =
  device :: ptp_clock_time
  sys_realtime :: ptp_clock_time
  sys_monoraw :: ptp_clock_time

record ptp_sys_offset_extended =
  extended_n_samples :: u32
  extended_ts :: "ptp_clock_time list"

record ptp_sys_offset =
  basic_n_samples :: u32
  basic_ts :: "ptp_clock_time list"

record ptp_crossts_request =
  crossts_period :: ptp_clock_time

text \<open>
  Modelled from the spec: a CrossEvent record holds the device time, the system
  timestamp and 32 bits of flags.
\<close>

record ptp_extts_event_cross =
  event_t :: ptp_clock_time
  event_tstamp :: u64
  event_flags :: u32

text \<open>
  Modelled from the spec: the flags encode a validity bit and a delay sub-field. Neither
  the bit \<open>PTP_EVENT_CROSS\<close>, nor the macro \<open>PTP_EVENT_CROSS_DELAY\<close>, nor the size and
  layout of the record are given, so they are parameters: \<open>sizeof_event\<close> is
  \<open>sizeof(struct ptp_extts_event_cross)\<close> and \<open>event_of_bytes\<close> reads a record from
  that many bytes, as the pointer cast of the source does.
\<close>

record header =
  PTP_EVENT_CROSS :: u32
  PTP_EVENT_CROSS_DELAY :: "u32 \<Rightarrow> s64"
  sizeof_event :: nat
  event_of_bytes :: "byte list \<Rightarrow> ptp_extts_event_cross"

text \<open>The structures after \<open>memset(&pso, 0, sizeof(pso))\<close>.\<close>

definition zero_pct :: ptp_clock_time where
  "zero_pct = \<lparr>sec = 0, nsec = 0, reserved = 0\<rparr>"

definition zero_precise :: ptp_sys_offset_precise where
  "zero_precise = \<lparr>device = zero_pct, sys_realtime = zero_pct, sys_monoraw = zero_pct\<rparr>"

definition zero_extended :: ptp_sys_offset_extended where
  "zero_extended =
     \<lparr>extended_n_samples = 0, extended_ts = replicate (3 * unat PTP_MAX_SAMPLES) zero_pct\<rparr>"

definition zero_basic :: ptp_sys_offset where
  "zero_basic =
     \<lparr>basic_n_samples = 0, basic_ts = replicate (2 * unat PTP_MAX_SAMPLES + 1) zero_pct\<rparr>"

definition zero_crossts :: ptp_crossts_request where
  "zero_crossts = \<lparr>crossts_period = zero_pct\<rparr>"

section \<open>The device and the state of a run\<close>

text \<open>
  Every request to the device is recorded in \<open>calls\<close>, every diagnostic in \<open>msgs\<close>.
  The device behind the descriptor \<open>fd\<close> answers a request as a function of the requests
  made before it and of the structure passed in: an \<open>ioctl\<close> returns its result and the
  structure as the driver left it, \<open>poll\<close> returns its result, and \<open>read\<close> returns
  \<open>None\<close> for \<open>-1\<close> or the bytes it has to deliver, of which at most \<open>count\<close> are
  stored. \<open>buf\<close> is the \<open>static char buf[4096]\<close> of the Cross sampler.
\<close>

datatype request =
    Ioctl_PTP_SYS_OFFSET_PRECISE ptp_sys_offset_precise
  | Ioctl_PTP_SYS_OFFSET_EXTENDED ptp_sys_offset_extended
  | Ioctl_PTP_SYS_OFFSET ptp_sys_offset
  | Ioctl_PTP_CROSSTS_REQUEST ptp_crossts_request
  | Poll_POLLIN
  | Read nat

datatype message =
    Pr_debug string
  | Perror string
  | Fprintf_stderr string "int list"

record device =
  ioctl_precise :: "request list \<Rightarrow> ptp_sys_offset_precise \<Rightarrow> int \<times> ptp_sys_offset_precise"
  ioctl_extended :: "request list \<Rightarrow> ptp_sys_offset_extended \<Rightarrow> int \<times> ptp_sys_offset_extended"
  ioctl_basic :: "request list \<Rightarrow> ptp_sys_offset \<Rightarrow> int \<times> ptp_sys_offset"
  ioctl_crossts :: "request list \<Rightarrow> ptp_crossts_request \<Rightarrow> int"
  poll_fd :: "request list \<Rightarrow> int"
  read_fd :: "request list \<Rightarrow> nat \<Rightarrow> byte list option"

record state =
  calls :: "request list"
  msgs :: "message list"
  buf :: "byte list"

definition called :: "request \<Rightarrow> state \<Rightarrow> state" where
  "called r st = st\<lparr>calls := calls st @ [r]\<rparr>"

definition said :: "message \<Rightarrow> state \<Rightarrow> state" where
  "said m st = st\<lparr>msgs := msgs st @ [m]\<rparr>"

text \<open>The values behind the pointers \<open>result\<close>, \<open>ts\<close> and \<open>delay\<close>.\<close>

type_synonym outs = "s64 \<times> u64 \<times> s64"

section \<open>Time codec\<close>

definition NS_PER_SEC :: s64 where
  "NS_PER_SEC = 1000000000"

definition NS_PER_MSEC :: s64 where
  "NS_PER_MSEC = 1000000"

definition pctns :: "ptp_clock_time \<Rightarrow> s64" where
  "pctns t = sec t * NS_PER_SEC + ucast (nsec t)"

definition nspct :: "s64 \<Rightarrow> ptp_clock_time \<Rightarrow> ptp_clock_time" where
  "nspct t pct = pct\<lparr>sec := div_s64 t NS_PER_SEC, nsec := ucast (mod_s64 t NS_PER_SEC)\<rparr>"

section \<open>Precise and Cross samplers, Cross enabler\<close>

definition sysoff_precise ::
  "device \<Rightarrow> state \<Rightarrow> s64 \<times> u64 \<Rightarrow> int \<times> state \<times> (s64 \<times> u64)" where
  "sysoff_precise fd st out =
     (let pso = zero_precise;
          (r, pso') = ioctl_precise fd (calls st) pso;
          st' = called (Ioctl_PTP_SYS_OFFSET_PRECISE pso) st
      in if r \<noteq> 0 then
           (SYSOFF_RUN_TIME_MISSING,
            said (Pr_debug ''ioctl PTP_SYS_OFFSET_PRECISE: %m'') st', out)
         else
           (SYSOFF_PRECISE, st',
            (pctns (sys_realtime pso') - pctns (device pso'), pctns (sys_realtime pso'))))"

text \<open>
  \<open>ret < sizeof(*event)\<close> compares as unsigned, after \<open>ret < 0\<close> has returned, so on
  non-negative values only.
\<close>

definition sysoff_cross :: "header \<Rightarrow> device \<Rightarrow> state \<Rightarrow> outs \<Rightarrow> int \<times> state \<times> outs" where
  "sysoff_cross h fd st out =
     (let ret = poll_fd fd (calls st);
          st1 = called Poll_POLLIN st
      in if ret < 1 then
           (SYSOFF_RUN_TIME_MISSING, said (Pr_debug ''poll sysoff_cross: %m'') st1, out)
         else
           (let got = read_fd fd (calls st1) 4096;
                st2 = called (Read 4096) st1
            in case got of
                 None \<Rightarrow>
                   (SYSOFF_RUN_TIME_MISSING, said (Pr_debug ''read sysoff_cross: %m'') st2, out)
               | Some bytes \<Rightarrow>
                   (let data = take 4096 bytes;
                        ret = int (length data);
                        st3 = st2\<lparr>buf := data @ drop (length data) (buf st2)\<rparr>
                    in if ret < int (sizeof_event h) then
                         (SYSOFF_RUN_TIME_MISSING, said (Pr_debug ''invalid event size'') st3, out)
                       else
                         (let num = ret div int (sizeof_event h);
                              event = event_of_bytes h
                                (take (sizeof_event h)
                                   (drop (nat (num - 1) * sizeof_event h) (buf st3)))
                          in if event_flags event AND PTP_EVENT_CROSS h = 0 then
                               (SYSOFF_RUN_TIME_MISSING,
                                said (Pr_debug ''invalid event flags'') st3, out)
                             else
                               (SYSOFF_CROSS, st3,
                                (pctns (event_t event) - event_tstamp event,
                                 pctns (event_t event),
                                 PTP_EVENT_CROSS_DELAY h (event_flags event)))))))"

definition sysoff_cross_enable :: "device \<Rightarrow> cint \<Rightarrow> state \<Rightarrow> int \<times> state" where
  "sysoff_cross_enable fd period st =
     (let cross = zero_crossts\<lparr>crossts_period := nspct (scast period) (crossts_period zero_crossts)\<rparr>;
          r = ioctl_crossts fd (calls st) cross;
          st' = called (Ioctl_PTP_CROSSTS_REQUEST cross) st
      in if r \<noteq> 0 then
           (SYSOFF_RUN_TIME_MISSING, said (Pr_debug ''ioctl PTP_CROSSTS_REQUEST: %m'') st')
         else (SYSOFF_CROSS, st'))"

section \<open>Sample selector\<close>

text \<open>
  \<open>pct\<close> is the array of device timestamps, indexed by an \<open>int\<close>. A read outside of
  it is undefined in C; here it is \<open>None\<close>, and so is every result computed after it.
  An index that overflows \<open>int\<close> is undefined in C as well; here it wraps around, and the
  theorems below keep the indices in range.
\<close>

definition pct_at :: "ptp_clock_time list \<Rightarrow> cint \<Rightarrow> ptp_clock_time option" where
  "pct_at pct k =
     (if 0 \<le> sint k \<and> nat (sint k) < length pct then Some (pct ! nat (sint k)) else None)"

text \<open>The three reads at the head of the function and of the loop body.\<close>

definition read_triplet :: "ptp_clock_time list \<Rightarrow> cint \<Rightarrow> cint \<Rightarrow> (s64 \<times> s64 \<times> s64) option" where
  "read_triplet pct extended i =
     (if extended \<noteq> 0 then
        (case (pct_at pct (3 * i), pct_at pct (3 * i + 1), pct_at pct (3 * i + 2)) of
           (Some a, Some b, Some c) \<Rightarrow> Some (pctns a, pctns b, pctns c)
         | _ \<Rightarrow> None)
      else
        (case (pct_at pct (2 * i), pct_at pct (2 * i + 1), pct_at pct (2 * i + 2)) of
           (Some a, Some b, Some c) \<Rightarrow> Some (pctns a, pctns b, pctns c)
         | _ \<Rightarrow> None))"

text \<open>
  The three assignments after the reads, at the head of the function and in the loop
  body: \<open>(interval, timestamp, offset)\<close> of the triplet \<open>(t1, tp, t2)\<close>.
\<close>

definition estimate_of :: "s64 \<times> s64 \<times> s64 \<Rightarrow> s64 \<times> s64 \<times> s64" where
  "estimate_of tr =
     (case tr of (t1, tp, t2) \<Rightarrow>
        (let interval = t2 - t1;
             timestamp = div_s64 (t2 + t1) 2;
             offset = timestamp - tp
         in (interval, timestamp, offset)))"

text \<open>
  The \<open>for\<close> loop, on \<open>(shortest_interval, best_timestamp, best_offset)\<close>. The counter
  cannot overflow: it is incremented only below \<open>n_samples\<close>.
\<close>

function estimate_loop ::
  "ptp_clock_time list \<Rightarrow> cint \<Rightarrow> cint \<Rightarrow> cint \<Rightarrow> s64 \<times> s64 \<times> s64 \<Rightarrow> (s64 \<times> s64 \<times> s64) option" where
  "estimate_loop pct extended n_samples i best =
     (if i <s n_samples then
        (case read_triplet pct extended i of
           None \<Rightarrow> None
         | Some tr \<Rightarrow>
             (case estimate_of tr of
                (interval, timestamp, offset) \<Rightarrow>
                  if interval <s fst best
                  then estimate_loop pct extended n_samples (i + 1) (interval, timestamp, offset)
                  else estimate_loop pct extended n_samples (i + 1) best))
      else Some best)"
  by pat_completeness auto

termination estimate_loop
proof (relation "measure (\<lambda>(pct, extended, n_samples, i, best). nat (sint n_samples - sint i))")
  have succ: "sint (i + 1) = sint i + 1" if "i <s n" for i n :: cint
  proof -
    have "sint i < sint n"
      using that by (simp add: word_sless_alt)
    moreover have "sint n < 2 ^ 31"
      using sint_lt [of n] by simp
    moreover have "- (2 ^ 31) \<le> sint i"
      using sint_ge [of i] by simp
    ultimately have "- (2 ^ 31) \<le> sint i + 1" and "sint i + 1 < 2 ^ 31"
      by simp_all
    then have "signed_take_bit 31 (sint i + 1) = sint i + 1"
      by (simp add: signed_take_bit_int_eq_self)
    then show ?thesis
      by (simp add: sint_word_ariths)
  qed
  show "wf (measure (\<lambda>(pct, extended, n_samples, i, best). nat (sint n_samples - sint i)))"
    by simp
  show "((pct, extended, n_samples, i + 1, best'), pct, extended, n_samples, i, best)
      \<in> measure (\<lambda>(pct, extended, n_samples, i, best). nat (sint n_samples - sint i))"
    if "i <s n_samples"
    for pct :: "ptp_clock_time list" and extended n_samples i :: cint
      and best best' :: "s64 \<times> s64 \<times> s64"
    using that by (simp add: succ word_sless_alt)
  then show "((pct, extended, n_samples, i + 1, best), pct, extended, n_samples, i, best)
      \<in> measure (\<lambda>(pct, extended, n_samples, i, best). nat (sint n_samples - sint i))"
    if "i <s n_samples"
    for pct :: "ptp_clock_time list" and extended n_samples i :: cint
      and best :: "s64 \<times> s64 \<times> s64"
    using that by simp
qed

declare estimate_loop.simps [simp del]

text \<open>
  The result is the returned offset with the values stored through \<open>ts\<close> and \<open>delay\<close>.
\<close>

definition sysoff_estimate ::
  "ptp_clock_time list \<Rightarrow> cint \<Rightarrow> cint \<Rightarrow> (s64 \<times> u64 \<times> s64) option" where
  "sysoff_estimate pct extended n_samples =
     (case read_triplet pct extended 0 of
        None \<Rightarrow> None
      | Some tr \<Rightarrow>
          (case estimate_loop pct extended n_samples 1 (estimate_of tr) of
             None \<Rightarrow> None
           | Some (shortest_interval, best_timestamp, best_offset) \<Rightarrow>
               Some (best_offset, best_timestamp, shortest_interval)))"

section \<open>Extended and Basic samplers\<close>

definition sysoff_extended ::
  "device \<Rightarrow> cint \<Rightarrow> state \<Rightarrow> outs \<Rightarrow> (int \<times> state \<times> outs) option" where
  "sysoff_extended fd n_samples st out =
     (let pso = zero_extended\<lparr>extended_n_samples := n_samples\<rparr>;
          (r, pso') = ioctl_extended fd (calls st) pso;
          st' = called (Ioctl_PTP_SYS_OFFSET_EXTENDED pso) st
      in if r \<noteq> 0 then
           Some (SYSOFF_RUN_TIME_MISSING,
                 said (Pr_debug ''ioctl PTP_SYS_OFFSET_EXTENDED: %m'') st', out)
         else
           (case sysoff_estimate (extended_ts pso') 1 n_samples of
              None \<Rightarrow> None
            | Some est \<Rightarrow> Some (SYSOFF_EXTENDED, st', est)))"

definition sysoff_basic ::
  "device \<Rightarrow> cint \<Rightarrow> state \<Rightarrow> outs \<Rightarrow> (int \<times> state \<times> outs) option" where
  "sysoff_basic fd n_samples st out =
     (let pso = zero_basic\<lparr>basic_n_samples := n_samples\<rparr>;
          (r, pso') = ioctl_basic fd (calls st) pso;
          st' = called (Ioctl_PTP_SYS_OFFSET pso) st
      in if r \<noteq> 0 then
           Some (SYSOFF_RUN_TIME_MISSING, said (Perror ''ioctl PTP_SYS_OFFSET'') st', out)
         else
           (case sysoff_estimate (basic_ts pso') 0 n_samples of
              None \<Rightarrow> None
            | Some est \<Rightarrow> Some (SYSOFF_BASIC, st', est)))"

section \<open>Dispatcher and prober\<close>

definition sysoff_measure ::
  "header \<Rightarrow> device \<Rightarrow> int \<Rightarrow> cint \<Rightarrow> state \<Rightarrow> outs \<Rightarrow> (int \<times> state \<times> outs) option" where
  "sysoff_measure h fd method n_samples st out =
     (case out of (result, ts, delay) \<Rightarrow>
        if method = SYSOFF_CROSS then Some (sysoff_cross h fd st (result, ts, 0))
        else if method = SYSOFF_PRECISE then
          (case sysoff_precise fd st (result, ts) of
             (r, st', result', ts') \<Rightarrow> Some (r, st', result', ts', 0))
        else if method = SYSOFF_EXTENDED then sysoff_extended fd n_samples st out
        else if method = SYSOFF_BASIC then sysoff_basic fd n_samples st out
        else Some (SYSOFF_RUN_TIME_MISSING, st, out))"

text \<open>
  The \<open>for\<close> loop of the prober. \<open>out\<close> holds the locals \<open>junk\<close>, \<open>ts\<close> and \<open>delay\<close>,
  which the prober passes on and never reads.
\<close>

function probe_loop ::
  "header \<Rightarrow> device \<Rightarrow> cint \<Rightarrow> int \<Rightarrow> state \<Rightarrow> outs \<Rightarrow> (int \<times> state) option" where
  "probe_loop h fd n_samples i st out =
     (if i < SYSOFF_LAST then
        (case sysoff_measure h fd i n_samples st out of
           None \<Rightarrow> None
         | Some (r, st', out') \<Rightarrow>
             if r < 0 then probe_loop h fd n_samples (i + 1) st' out'
             else Some (i, st'))
      else Some (SYSOFF_RUN_TIME_MISSING, st))"
  by pat_completeness auto
termination
  by (relation "measure (\<lambda>(h, fd, n_samples, i, st, out). nat (SYSOFF_LAST - i))") auto

declare probe_loop.simps [simp del]

definition sysoff_probe ::
  "header \<Rightarrow> device \<Rightarrow> cint \<Rightarrow> state \<Rightarrow> outs \<Rightarrow> (int \<times> state) option" where
  "sysoff_probe h fd n_samples st out =
     (let period = ucast (1 * NS_PER_MSEC) :: cint
      in if PTP_MAX_SAMPLES <s n_samples then
           Some (SYSOFF_RUN_TIME_MISSING,
                 said (Fprintf_stderr (''falling back to clock_gettime method'' @ [CHR 0x0A]) [])
                   (said (Fprintf_stderr
                            (''warning: %d exceeds kernel max readings %d'' @ [CHR 0x0A])
                            [sint n_samples, sint PTP_MAX_SAMPLES]) st))
         else
           (case sysoff_cross_enable fd period st of
              (r, st') \<Rightarrow>
                if r \<ge> 0 then Some (SYSOFF_CROSS, st')
                else probe_loop h fd n_samples (SYSOFF_CROSS + 1) st' out))"

section \<open>The selector as the specification words it\<close>

text \<open>
  Sample \<open>i\<close> of a batch: the timestamps at \<open>(3i, 3i+1, 3i+2)\<close> in extended mode and
  at \<open>(2i, 2i+1, 2i+2)\<close> in basic mode, in nanoseconds, as \<open>(before, hw, after)\<close>.
\<close>

definition spec_bracket :: "ptp_clock_time list \<Rightarrow> cint \<Rightarrow> nat \<Rightarrow> s64 \<times> s64 \<times> s64" where
  "spec_bracket pct extended i =
     (if extended \<noteq> 0
      then (pctns (pct ! (3 * i)), pctns (pct ! (3 * i + 1)), pctns (pct ! (3 * i + 2)))
      else (pctns (pct ! (2 * i)), pctns (pct ! (2 * i + 1)), pctns (pct ! (2 * i + 2))))"

text \<open>Interval, integer mid-point and offset of a bracket \<open>(before, hw, after)\<close>.\<close>

definition spec_interval :: "s64 \<times> s64 \<times> s64 \<Rightarrow> s64" where
  "spec_interval br = (case br of (before, hw, after) \<Rightarrow> after - before)"

definition spec_mid :: "s64 \<times> s64 \<times> s64 \<Rightarrow> s64" where
  "spec_mid br = (case br of (before, hw, after) \<Rightarrow> div_s64 (after + before) 2)"

definition spec_offset :: "s64 \<times> s64 \<times> s64 \<Rightarrow> s64" where
  "spec_offset br = (case br of (before, hw, after) \<Rightarrow> spec_mid br - hw)"

text \<open>
  Scanning in index order with a strict comparison: the candidate \<open>e\<close> replaces
  \<open>best\<close> only when its interval is smaller. Estimates are
  \<open>(interval, timestamp, offset)\<close>.
\<close>

definition keep_shorter :: "s64 \<times> s64 \<times> s64 \<Rightarrow> s64 \<times> s64 \<times> s64 \<Rightarrow> s64 \<times> s64 \<times> s64" where
  "keep_shorter best e = (if fst e <s fst best then e else best)"

definition select :: "(s64 \<times> s64 \<times> s64) list \<Rightarrow> s64 \<times> s64 \<times> s64" where
  "select es = foldl keep_shorter (hd es) (tl es)"

text \<open>
  A sequence of independent bracketed samples and the array that holds it in the
  extended layout, three timestamps per sample.
\<close>

definition triplets ::
  "(ptp_clock_time \<times> ptp_clock_time \<times> ptp_clock_time) list \<Rightarrow> ptp_clock_time list" where
  "triplets xs = concat (map (\<lambda>(before, hw, after). [before, hw, after]) xs)"

definition sample_ns :: "ptp_clock_time \<times> ptp_clock_time \<times> ptp_clock_time \<Rightarrow> s64 \<times> s64 \<times> s64" where
  "sample_ns x = (case x of (before, hw, after) \<Rightarrow> (pctns before, pctns hw, pctns after))"

definition sample_interval :: "ptp_clock_time \<times> ptp_clock_time \<times> ptp_clock_time \<Rightarrow> s64" where
  "sample_interval x = (case x of (before, hw, after) \<Rightarrow> pctns after - pctns before)"

section \<open>Examples\<close>

text \<open>Timestamps within the first second.\<close>

definition at_ns :: "nat \<Rightarrow> ptp_clock_time" where
  "at_ns k = \<lparr>sec = 0, nsec = of_nat k, reserved = 0\<rparr>"

text \<open>
  A device that refuses every request, and the state before the first request. The
  examples change single answers of this device.
\<close>

definition no_device :: device where
  "no_device =
     \<lparr>ioctl_precise = (\<lambda>cs pso. (- 1, pso)),
      ioctl_extended = (\<lambda>cs pso. (- 1, pso)),
      ioctl_basic = (\<lambda>cs pso. (- 1, pso)),
      ioctl_crossts = (\<lambda>cs cross. - 1),
      poll_fd = (\<lambda>cs. 0),
      read_fd = (\<lambda>cs count. None)\<rparr>"

definition start :: state where
  "start = \<lparr>calls = [], msgs = [], buf = replicate 4096 0\<rparr>"

text \<open>
  A header for the examples, with records of four bytes: the device time in nanoseconds,
  the system timestamp, the flags and one byte of padding. Bit 0 of the flags is the
  validity bit, the bits above it are the delay.
\<close>

definition example_header :: header where
  "example_header =
     \<lparr>PTP_EVENT_CROSS = 1,
      PTP_EVENT_CROSS_DELAY = (\<lambda>flags. ucast (drop_bit 1 flags)),
      sizeof_event = 4,
      event_of_bytes = (\<lambda>bytes.
        \<lparr>event_t = at_ns (unat (bytes ! 0)), event_tstamp = ucast (bytes ! 1),
         event_flags = ucast (bytes ! 2)\<rparr>)\<rparr>"

section \<open>Arithmetic of the machine integers\<close>

lemma sint_word_of_int_64:
  "- (2 ^ 63) \<le> k \<Longrightarrow> k < 2 ^ 63 \<Longrightarrow> sint (word_of_int k :: 64 word) = k"
  by (simp add: sint_sbintrunc' signed_take_bit_int_eq_self)

lemma sint_word_of_int_64_cong: "sint (word_of_int k :: 64 word) mod 2 ^ 64 = k mod 2 ^ 64"
proof -
  have "take_bit 64 (signed_take_bit 63 k) = take_bit 64 k"
    by (simp add: take_bit_signed_take_bit)
  then show ?thesis
    by (simp add: sint_sbintrunc' take_bit_eq_mod)
qed

lemma cong_2_64_close:
  fixes a b :: int
  assumes "a mod 2 ^ 64 = b mod 2 ^ 64" and "\<bar>a - b\<bar> < 2 ^ 64"
  shows "a = b"
proof -
  have "(2 ^ 64 :: int) dvd a - b"
    using assms(1) by (simp add: mod_eq_dvd_iff)
  then show ?thesis
    using assms(2) by (auto elim!: dvdE simp: abs_mult)
qed

lemma sdiv_nonneg: "0 \<le> k \<Longrightarrow> 0 < l \<Longrightarrow> (k::int) sdiv l = k div l"
  by (simp add: signed_divide_int_eq_divide_int sgn_if)

lemma smod_nonneg: "0 \<le> k \<Longrightarrow> 0 < l \<Longrightarrow> (k::int) smod l = k mod l"
  by (simp add: signed_modulo_int_eq_modulo_int sgn_if)

lemma sdiv_nonpos: "k \<le> 0 \<Longrightarrow> 0 < l \<Longrightarrow> (k::int) sdiv l = - ((- k) div l)"
  by (simp add: signed_divide_int_def sgn_if)

lemma sdiv_NS_pos:
  fixes r s :: int
  assumes "r sdiv 1000000000 = s" and "0 < s"
  shows "s * 1000000000 \<le> r \<and> r < s * 1000000000 + 1000000000"
proof (cases "0 \<le> r")
  case True
  then have "r div 1000000000 = s"
    using assms(1) by (simp add: sdiv_nonneg)
  then show ?thesis by auto
next
  case False
  then have "r sdiv 1000000000 \<le> 0"
    by (simp add: sdiv_nonpos pos_imp_zdiv_nonneg_iff)
  then show ?thesis
    using assms by simp
qed

lemma sdiv_NS_range:
  fixes r :: int
  assumes "- (2 ^ 63) \<le> r" and "r < 2 ^ 63"
  shows "- (2 ^ 63) \<le> r sdiv 1000000000 \<and> r sdiv 1000000000 < 2 ^ 63"
proof (cases "0 \<le> r")
  case True
  then show ?thesis
    using assms by (simp add: sdiv_nonneg) linarith
next
  case False
  then show ?thesis
    using assms by (simp add: sdiv_nonpos) linarith
qed

lemma ucast_32_64_32: "(ucast (ucast (x :: 32 word) :: 64 word) :: 32 word) = x"
  by (rule bit_word_eqI) (auto simp add: bit_simps)

section \<open>Time codec: round trip\<close>

lemma sint_NS_PER_SEC: "sint NS_PER_SEC = 1000000000"
  by (simp add: NS_PER_SEC_def)

lemma pctns_word_of_int:
  "pctns t = word_of_int (sint (sec t) * 1000000000 + uint (nsec t))"
  by (simp add: pctns_def NS_PER_SEC_def)

lemma sint_pctns:
  assumes "0 \<le> sint (sec t)" and "sint (sec t) * 1000000000 + uint (nsec t) < 2 ^ 63"
  shows "sint (pctns t) = sint (sec t) * 1000000000 + uint (nsec t)"
proof -
  have "0 \<le> sint (sec t) * 1000000000"
    using assms(1) by simp
  then have "0 \<le> sint (sec t) * 1000000000 + uint (nsec t)"
    using uint_ge_0 [of "nsec t"] by (rule add_nonneg_nonneg)
  then have "- (2 ^ 63) \<le> sint (sec t) * 1000000000 + uint (nsec t)"
    by (rule order_trans [rotated]) simp
  then show ?thesis
    using assms(2) by (simp only: pctns_word_of_int sint_word_of_int_64)
qed

text \<open>
  Claim C7, as amended. A DeviceTimestamp with non-negative seconds and nanoseconds below
  \<open>10^9\<close> whose nanosecond count \<open>seconds * 10^9 + nanoseconds\<close> fits the signed 64-bit
  range is reproduced by \<open>nspct\<close> after \<open>pctns\<close>, in both the seconds and the
  nanoseconds field.
\<close>

theorem nspct_pctns_roundtrip:
  assumes "0 \<le> sint (sec t)" and "uint (nsec t) < 1000000000"
    and "sint (sec t) * 1000000000 + uint (nsec t) < 2 ^ 63"
  shows "sec (nspct (pctns t) pct) = sec t \<and> nsec (nspct (pctns t) pct) = nsec t"
proof -
  let ?v = "sint (sec t) * 1000000000 + uint (nsec t)"
  have v: "sint (pctns t) = ?v"
    using assms(1,3) by (rule sint_pctns)
  have nn: "0 \<le> ?v"
    using assms(1) by simp
  have d: "?v sdiv 1000000000 = sint (sec t)"
    using nn assms(2) by (simp add: sdiv_nonneg)
  have m: "?v smod 1000000000 = uint (nsec t)"
    using nn assms(2) by (simp add: smod_nonneg)
  show ?thesis
    by (simp add: nspct_def div_s64_def mod_s64_def v sint_NS_PER_SEC d m ucast_32_64_32)
qed

theorem nspct_pctns_roundtrip_witness:
  "sec (nspct (pctns \<lparr>sec = 5, nsec = 999999999, reserved = 0\<rparr>) \<lparr>sec = 0, nsec = 0, reserved = 0\<rparr>) = 5
   \<and> nsec (nspct (pctns \<lparr>sec = 5, nsec = 999999999, reserved = 0\<rparr>) \<lparr>sec = 0, nsec = 0, reserved = 0\<rparr>)
       = 999999999"
  using nspct_pctns_roundtrip
    [of "\<lparr>sec = 5, nsec = 999999999, reserved = 0\<rparr>" "\<lparr>sec = 0, nsec = 0, reserved = 0\<rparr>"]
  by simp

text \<open>
  The claim as stated fails where the nanosecond count leaves the signed 64-bit range:
  \<open>10^10\<close> seconds are non-negative, the product wraps around, and the seconds read back
  are negative.
\<close>

theorem nspct_pctns_overflow_counterexample:
  "0 \<le> sint (sec \<lparr>sec = 10000000000, nsec = 0, reserved = 0\<rparr>)
   \<and> uint (nsec \<lparr>sec = 10000000000, nsec = 0, reserved = 0\<rparr>) < 1000000000
   \<and> sec (nspct (pctns \<lparr>sec = 10000000000, nsec = 0, reserved = 0\<rparr>)
             \<lparr>sec = 10000000000, nsec = 0, reserved = 0\<rparr>)
       \<noteq> sec \<lparr>sec = 10000000000, nsec = 0, reserved = 0\<rparr>"
  by (simp add: nspct_def pctns_def NS_PER_SEC_def div_s64_def signed_divide_int_def)

text \<open>
  The bound of the amended claim is the weakest one: with non-negative seconds and
  nanoseconds below \<open>10^9\<close>, the seconds are read back only if the count did not wrap.
\<close>

lemma pctns_in_range_if_sec_read_back:
  assumes "0 \<le> sint (sec t)" and "uint (nsec t) < 1000000000"
    and "sec (nspct (pctns t) pct) = sec t"
  shows "sint (sec t) * 1000000000 + uint (nsec t) < 2 ^ 63"
proof (cases "sint (sec t) = 0")
  case True
  then show ?thesis
    using assms(2) by simp
next
  case False
  let ?s = "sint (sec t)"
  let ?v = "?s * 1000000000 + uint (nsec t)"
  let ?r = "sint (pctns t)"
  have pos: "0 < ?s"
    using False assms(1) by simp
  have range: "- (2 ^ 63) \<le> ?r" "?r < 2 ^ 63"
    using sint_ge [of "pctns t"] sint_lt [of "pctns t"] by simp_all
  have "sint (sec (nspct (pctns t) pct)) = ?r sdiv 1000000000"
    using sdiv_NS_range [OF range]
    by (simp add: nspct_def div_s64_def sint_NS_PER_SEC sint_word_of_int_64)
  then have "?r sdiv 1000000000 = ?s"
    using assms(3) by simp
  then have r: "?s * 1000000000 \<le> ?r \<and> ?r < ?s * 1000000000 + 1000000000"
    using pos by (rule sdiv_NS_pos)
  have "?r mod 2 ^ 64 = ?v mod 2 ^ 64"
    by (simp only: pctns_word_of_int sint_word_of_int_64_cong)
  moreover have "\<bar>?r - ?v\<bar> < 1000000000"
    using r assms(2) uint_ge_0 [of "nsec t"] by linarith
  then have "\<bar>?r - ?v\<bar> < 2 ^ 64"
    by simp
  ultimately have "?r = ?v"
    by (rule cong_2_64_close)
  then show ?thesis
    using range(2) by simp
qed

section \<open>Sample selector: the loop as a scan\<close>

lemma sint_of_nat_cint:
  assumes "k < 2 ^ 31"
  shows "sint (of_nat k :: cint) = int k"
proof -
  have "int k < 2 ^ 31"
    using assms by simp
  moreover have "- (2 ^ 31) \<le> int k"
    by (rule order_trans [of _ 0]) simp_all
  ultimately have "signed_take_bit 31 (int k) = int k"
    by (simp only: signed_take_bit_int_eq_self)
  moreover have "sint (word_of_int (int k) :: cint) = signed_take_bit 31 (int k)"
    by (simp only: sint_sbintrunc') simp
  ultimately show ?thesis
    by (simp only: of_int_of_nat_eq)
qed

lemma pct_at_of_nat:
  assumes "k < length pct" and "k < 2 ^ 31"
  shows "pct_at pct (of_nat k) = Some (pct ! k)"
  using assms by (simp only: pct_at_def sint_of_nat_cint) simp

lemma read_triplet_of_nat:
  assumes "if extended \<noteq> 0 then 3 * i + 2 < length pct else 2 * i + 2 < length pct"
    and "3 * i + 2 < 2 ^ 31"
  shows "read_triplet pct extended (of_nat i) = Some (spec_bracket pct extended i)"
proof (cases "extended = 0")
  case True
  have w: "2 * of_nat i = (of_nat (2 * i) :: cint)"
    "of_nat (2 * i) + 1 = (of_nat (2 * i + 1) :: cint)"
    "of_nat (2 * i) + 2 = (of_nat (2 * i + 2) :: cint)"
    by simp_all
  have p: "pct_at pct (of_nat (2 * i)) = Some (pct ! (2 * i))"
    "pct_at pct (of_nat (2 * i + 1)) = Some (pct ! (2 * i + 1))"
    "pct_at pct (of_nat (2 * i + 2)) = Some (pct ! (2 * i + 2))"
    using assms True by (simp_all only: pct_at_of_nat if_False simp_thms)
  show ?thesis
    by (simp only: read_triplet_def spec_bracket_def w p True option.case prod.case
        if_False simp_thms)
next
  case False
  have w: "3 * of_nat i = (of_nat (3 * i) :: cint)"
    "of_nat (3 * i) + 1 = (of_nat (3 * i + 1) :: cint)"
    "of_nat (3 * i) + 2 = (of_nat (3 * i + 2) :: cint)"
    by simp_all
  have p: "pct_at pct (of_nat (3 * i)) = Some (pct ! (3 * i))"
    "pct_at pct (of_nat (3 * i + 1)) = Some (pct ! (3 * i + 1))"
    "pct_at pct (of_nat (3 * i + 2)) = Some (pct ! (3 * i + 2))"
    using assms False by (simp_all only: pct_at_of_nat if_True simp_thms)
  show ?thesis
    by (simp only: read_triplet_def spec_bracket_def w p False option.case prod.case
        if_True simp_thms)
qed

lemma sless_of_nat_cint:
  assumes "i < 2 ^ 31" "n < 2 ^ 31"
  shows "(of_nat i :: cint) <s of_nat n \<longleftrightarrow> i < n"
  using assms by (simp add: word_sless_alt sint_of_nat_cint)

lemma estimate_loop_foldl:
  assumes "i \<le> n" and "3 * n < 2 ^ 31"
    and "if extended \<noteq> 0 then 3 * n \<le> length pct else 2 * n + 1 \<le> length pct"
  shows "estimate_loop pct extended (of_nat n) (of_nat i) best =
      Some (foldl keep_shorter best (map (\<lambda>j. estimate_of (spec_bracket pct extended j)) [i..<n]))"
  using assms(1)
proof (induction "n - i" arbitrary: i best)
  case 0
  then have "i = n" by simp
  then show ?case
    by (subst estimate_loop.simps) simp
next
  case (Suc d)
  then have lt: "i < n" by simp
  have n31: "n < 2 ^ 31" "i < 2 ^ 31" using assms(2) lt by simp_all
  have less: "(of_nat i :: cint) <s of_nat n"
    using lt n31 by (simp add: sless_of_nat_cint)
  have "3 * i + 2 < 2 ^ 31" using lt assms(2) by simp
  moreover have "if extended \<noteq> 0 then 3 * i + 2 < length pct else 2 * i + 2 < length pct"
    using lt assms(3) by (auto split: if_splits)
  ultimately have rd: "read_triplet pct extended (of_nat i) = Some (spec_bracket pct extended i)"
    by (simp add: read_triplet_of_nat)
  have IH: "estimate_loop pct extended (of_nat n) (of_nat (Suc i)) b =
      Some (foldl keep_shorter b (map (\<lambda>j. estimate_of (spec_bracket pct extended j)) [Suc i..<n]))" for b
    using Suc.hyps(1) [of "Suc i" b] Suc.hyps(2) lt by simp
  have upt: "[i..<n] = i # [Suc i..<n]"
    using lt by (simp add: upt_conv_Cons)
  obtain a b c where e: "estimate_of (spec_bracket pct extended i) = (a, b, c)"
    by (cases "estimate_of (spec_bracket pct extended i)")
  have step: "estimate_loop pct extended (of_nat n) (of_nat i) best =
      estimate_loop pct extended (of_nat n) (of_nat (Suc i)) (keep_shorter best (a, b, c))"
    by (subst estimate_loop.simps) (simp add: less rd e keep_shorter_def add.commute)
  show ?case
    by (simp only: step IH upt list.map foldl.simps e)
qed

lemma estimate_of_spec:
  "estimate_of br = (spec_interval br, spec_mid br, spec_offset br)"
  by (cases br) (simp add: estimate_of_def spec_interval_def spec_mid_def spec_offset_def Let_def)

lemma foldl_keep_shorter_first_min:
  "\<exists>k<length (b # es).
      foldl keep_shorter b es = (b # es) ! k
    \<and> (\<forall>j<length (b # es). sint (fst ((b # es) ! k)) \<le> sint (fst ((b # es) ! j)))
    \<and> (\<forall>j<k. sint (fst ((b # es) ! k)) < sint (fst ((b # es) ! j)))"
proof (induction es rule: rev_induct)
  case Nil
  then show ?case by simp
next
  case (snoc e es)
  then obtain k where k: "k < length (b # es)"
    and r: "foldl keep_shorter b es = (b # es) ! k"
    and le: "\<And>j. j < length (b # es) \<Longrightarrow> sint (fst ((b # es) ! k)) \<le> sint (fst ((b # es) ! j))"
    and lt: "\<And>j. j < k \<Longrightarrow> sint (fst ((b # es) ! k)) < sint (fst ((b # es) ! j))"
    by blast
  define xs where "xs = b # es"
  have app: "b # es @ [e] = xs @ [e]"
    by (simp add: xs_def)
  have old: "(xs @ [e]) ! j = xs ! j" if "j < length xs" for j
    using that by (simp add: nth_append)
  have new: "(xs @ [e]) ! length xs = e"
    by simp
  have len: "j < length xs \<or> j = length xs" if "j < length (xs @ [e])" for j
    using that by auto
  note k' = k [folded xs_def] and r' = r [folded xs_def] and le' = le [folded xs_def]
    and lt' = lt [folded xs_def]
  show ?case
  proof (cases "fst e <s fst (xs ! k)")
    case True
    then have res: "foldl keep_shorter b (es @ [e]) = e"
      by (simp add: keep_shorter_def r')
    have e_lt: "sint (fst e) < sint (fst (xs ! j))" if "j < length xs" for j
    proof -
      have "sint (fst e) < sint (fst (xs ! k))"
        using True by (simp add: word_sless_alt)
      then show ?thesis
        using le' [OF that] by linarith
    qed
    have "length xs < length (xs @ [e])"
      by simp
    moreover have "foldl keep_shorter b (es @ [e]) = (xs @ [e]) ! length xs"
      by (simp only: res new)
    moreover have "sint (fst ((xs @ [e]) ! length xs)) \<le> sint (fst ((xs @ [e]) ! j))"
      if "j < length (xs @ [e])" for j
      using len [OF that] e_lt [of j] by (auto simp: old)
    moreover have "sint (fst ((xs @ [e]) ! length xs)) < sint (fst ((xs @ [e]) ! j))"
      if "j < length xs" for j
      using e_lt [OF that] by (simp add: old that)
    ultimately have "length xs < length (xs @ [e])
        \<and> foldl keep_shorter b (es @ [e]) = (xs @ [e]) ! length xs
        \<and> (\<forall>j<length (xs @ [e]). sint (fst ((xs @ [e]) ! length xs)) \<le> sint (fst ((xs @ [e]) ! j)))
        \<and> (\<forall>j<length xs. sint (fst ((xs @ [e]) ! length xs)) < sint (fst ((xs @ [e]) ! j)))"
      by simp
    then show ?thesis
      unfolding app by (rule exI [of _ "length xs"])
  next
    case False
    then have res: "foldl keep_shorter b (es @ [e]) = xs ! k"
      by (simp add: keep_shorter_def r')
    have k_le_e: "sint (fst (xs ! k)) \<le> sint (fst e)"
      using False by (simp add: word_sless_alt)
    have "k < length (xs @ [e])"
      using k' by simp
    moreover have "foldl keep_shorter b (es @ [e]) = (xs @ [e]) ! k"
      by (simp only: res old [OF k'])
    moreover have "sint (fst ((xs @ [e]) ! k)) \<le> sint (fst ((xs @ [e]) ! j))"
      if "j < length (xs @ [e])" for j
      using len [OF that] le' [of j] k_le_e by (auto simp: old k')
    moreover have "sint (fst ((xs @ [e]) ! k)) < sint (fst ((xs @ [e]) ! j))"
      if "j < k" for j
    proof -
      have "j < length xs"
        using that k' by simp
      then show ?thesis
        using lt' [OF that] by (simp add: old k')
    qed
    ultimately have "k < length (xs @ [e])
        \<and> foldl keep_shorter b (es @ [e]) = (xs @ [e]) ! k
        \<and> (\<forall>j<length (xs @ [e]). sint (fst ((xs @ [e]) ! k)) \<le> sint (fst ((xs @ [e]) ! j)))
        \<and> (\<forall>j<k. sint (fst ((xs @ [e]) ! k)) < sint (fst ((xs @ [e]) ! j)))"
      by simp
    then show ?thesis
      unfolding app by (rule exI [of _ k])
  qed
qed


lemma sysoff_estimate_foldl:
  assumes "1 \<le> n" and "3 * n < 2 ^ 31"
    and "if extended \<noteq> 0 then 3 * n \<le> length pct else 2 * n + 1 \<le> length pct"
  shows "sysoff_estimate pct extended (of_nat n) =
      (case foldl keep_shorter (estimate_of (spec_bracket pct extended 0))
              (map (\<lambda>j. estimate_of (spec_bracket pct extended j)) [1..<n]) of
         (shortest_interval, best_timestamp, best_offset) \<Rightarrow>
           Some (best_offset, best_timestamp, shortest_interval))"
proof -
  have "if extended \<noteq> 0 then 3 * 0 + 2 < length pct else 2 * 0 + 2 < length pct"
    using assms(1,3) by (auto split: if_splits)
  moreover have "3 * 0 + 2 < (2::nat) ^ 31"
    by simp
  ultimately have "read_triplet pct extended (of_nat 0) = Some (spec_bracket pct extended 0)"
    by (rule read_triplet_of_nat)
  then have rd: "read_triplet pct extended 0 = Some (spec_bracket pct extended 0)"
    by simp
  have "estimate_loop pct extended (of_nat n) (of_nat 1) b =
      Some (foldl keep_shorter b (map (\<lambda>j. estimate_of (spec_bracket pct extended j)) [1..<n]))"
    for b
    using assms by (rule estimate_loop_foldl)
  then have lp: "estimate_loop pct extended (of_nat n) 1 b =
      Some (foldl keep_shorter b (map (\<lambda>j. estimate_of (spec_bracket pct extended j)) [1..<n]))"
    for b
    by simp
  show ?thesis
    by (simp add: sysoff_estimate_def rd lp split: prod.splits)
qed

text \<open>
  Claim C1. For a batch of \<open>n \<ge> 1\<close> samples held in the array, \<open>sysoff_estimate\<close>
  returns offset, mid-point and interval of one sample \<open>k\<close> of the batch, read at
  \<open>(3k, 3k+1, 3k+2)\<close> in extended mode and at \<open>(2k, 2k+1, 2k+2)\<close> in basic mode; no
  sample has a smaller interval, and every sample before \<open>k\<close> has a strictly larger one.
  The mid-point is \<open>(after + before) / 2\<close> with C's truncating division.
\<close>

theorem sysoff_estimate_best_of_n:
  assumes "1 \<le> n" and "3 * n < 2 ^ 31"
    and "if extended \<noteq> 0 then 3 * n \<le> length pct else 2 * n + 1 \<le> length pct"
  shows "\<exists>k<n.
      sysoff_estimate pct extended (of_nat n) =
        Some (spec_offset (spec_bracket pct extended k),
              spec_mid (spec_bracket pct extended k),
              spec_interval (spec_bracket pct extended k))
    \<and> (\<forall>j<n. spec_interval (spec_bracket pct extended k)
                 \<le>s spec_interval (spec_bracket pct extended j))
    \<and> (\<forall>j<k. spec_interval (spec_bracket pct extended k)
                 <s spec_interval (spec_bracket pct extended j))"
proof -
  define est where "est = (\<lambda>j. estimate_of (spec_bracket pct extended j))"
  have upt: "[0..<n] = 0 # [1..<n]"
    using assms(1) by (simp add: upt_conv_Cons)
  have all: "est 0 # map est [1..<n] = map est [0..<n]"
    by (simp only: upt list.map)
  obtain k where k: "k < length (map est [0..<n])"
    and r: "foldl keep_shorter (est 0) (map est [1..<n]) = map est [0..<n] ! k"
    and le: "\<And>j. j < length (map est [0..<n]) \<Longrightarrow>
        sint (fst (map est [0..<n] ! k)) \<le> sint (fst (map est [0..<n] ! j))"
    and lt: "\<And>j. j < k \<Longrightarrow> sint (fst (map est [0..<n] ! k)) < sint (fst (map est [0..<n] ! j))"
    using foldl_keep_shorter_first_min [of "est 0" "map est [1..<n]"] unfolding all by blast
  have kn: "k < n"
    using k by simp
  have nth: "map est [0..<n] ! j = est j" if "j < n" for j
    using that by simp
  have fst_est: "fst (est j) = spec_interval (spec_bracket pct extended j)" for j
    by (simp add: est_def estimate_of_spec)
  have "sysoff_estimate pct extended (of_nat n) =
      Some (spec_offset (spec_bracket pct extended k),
            spec_mid (spec_bracket pct extended k),
            spec_interval (spec_bracket pct extended k))"
    using r by (simp add: sysoff_estimate_foldl [OF assms] nth [OF kn] flip: est_def)
      (simp add: est_def estimate_of_spec)
  moreover have "spec_interval (spec_bracket pct extended k)
      \<le>s spec_interval (spec_bracket pct extended j)" if "j < n" for j
    using le [of j] that by (simp add: nth kn fst_est word_sle_eq)
  moreover have "spec_interval (spec_bracket pct extended k)
      <s spec_interval (spec_bracket pct extended j)" if "j < k" for j
  proof -
    have "j < n" using that kn by simp
    then show ?thesis
      using lt [OF that] by (simp add: nth kn fst_est word_sless_alt)
  qed
  ultimately show ?thesis
    using kn by blast
qed

theorem sysoff_estimate_best_of_n_witness:
  "sysoff_estimate [at_ns 100, at_ns 150, at_ns 300, at_ns 1000, at_ns 1040, at_ns 1100] 1 2
     = Some (10, 1050, 100)"
proof -
  let ?pct = "[at_ns 100, at_ns 150, at_ns 300, at_ns 1000, at_ns 1040, at_ns 1100]"
  have b0: "spec_bracket ?pct 1 0 = (100, 150, 300)"
    and b1: "spec_bracket ?pct 1 (Suc 0) = (1000, 1040, 1100)"
    by (simp_all add: spec_bracket_def at_ns_def pctns_def)
  obtain k where "k < 2"
    and res: "sysoff_estimate ?pct 1 (of_nat 2) =
        Some (spec_offset (spec_bracket ?pct 1 k), spec_mid (spec_bracket ?pct 1 k),
              spec_interval (spec_bracket ?pct 1 k))"
    and le: "\<forall>j<2. spec_interval (spec_bracket ?pct 1 k) \<le>s spec_interval (spec_bracket ?pct 1 j)"
    using sysoff_estimate_best_of_n [of 2 1 ?pct] by auto
  have "k \<noteq> 0"
  proof
    assume "k = 0"
    then have "spec_interval (spec_bracket ?pct 1 0) \<le>s spec_interval (spec_bracket ?pct 1 1)"
      using le by simp
    then show False
      by (simp add: b0 b1 spec_interval_def word_sle_eq)
  qed
  then have "k = 1"
    using \<open>k < 2\<close> by simp
  then show ?thesis
    using res by (simp add: b1 spec_interval_def spec_mid_def spec_offset_def div_s64_def)
qed

section \<open>Sample selector: inserting a wider sample\<close>

lemma length_triplets: "length (triplets xs) = 3 * length xs"
  by (induction xs) (auto simp: triplets_def)

lemma triplets_Cons: "triplets ((b, h, a) # xs) = b # h # a # triplets xs"
  by (simp add: triplets_def)

lemma spec_bracket_triplets:
  assumes "j < length xs" and "extended \<noteq> 0"
  shows "spec_bracket (triplets xs) extended j = sample_ns (xs ! j)"
  using assms(1)
proof (induction xs arbitrary: j)
  case Nil
  then show ?case by simp
next
  case (Cons x xs)
  obtain b h a where x: "x = (b, h, a)" by (cases x)
  show ?case
  proof (cases j)
    case 0
    then show ?thesis
      using assms(2) by (simp add: x triplets_Cons spec_bracket_def sample_ns_def)
  next
    case (Suc j')
    then have "j' < length xs" using Cons.prems by simp
    then have IH: "spec_bracket (triplets xs) extended j' = sample_ns (xs ! j')"
      by (rule Cons.IH)
    have i: "3 * Suc j' = Suc (Suc (Suc (3 * j')))"
      "Suc (Suc (Suc (3 * j'))) + 1 = Suc (Suc (Suc (3 * j' + 1)))"
      "Suc (Suc (Suc (3 * j'))) + 2 = Suc (Suc (Suc (3 * j' + 2)))"
      by simp_all
    have "spec_bracket (triplets (x # xs)) extended (Suc j') = spec_bracket (triplets xs) extended j'"
      using assms(2) by (simp only: x triplets_Cons spec_bracket_def i nth_Cons_Suc if_True simp_thms)
    then show ?thesis
      using IH Suc by simp
  qed
qed

lemma estimates_triplets:
  assumes "extended \<noteq> 0"
  shows "map (\<lambda>j. estimate_of (spec_bracket (triplets xs) extended j)) [0..<length xs]
    = map (\<lambda>x. estimate_of (sample_ns x)) xs"
  by (rule nth_equalityI) (simp_all add: spec_bracket_triplets assms)

lemma sysoff_estimate_triplets:
  assumes "xs \<noteq> []" and "3 * length xs < 2 ^ 31" 
  shows "sysoff_estimate (triplets xs) 1 (of_nat (length xs)) =
     (case select (map (\<lambda>x. estimate_of (sample_ns x)) xs) of
        (shortest_interval, best_timestamp, best_offset) \<Rightarrow>
          Some (best_offset, best_timestamp, shortest_interval))"
proof -
  let ?n = "length xs"
  let ?e = "\<lambda>j. estimate_of (spec_bracket (triplets xs) 1 j)"
  have n: "1 \<le> ?n" using assms(1) by (cases xs) simp_all
  have "if (1::cint) \<noteq> 0 then 3 * ?n \<le> length (triplets xs) else 2 * ?n + 1 \<le> length (triplets xs)"
    by (simp add: length_triplets)
  with n assms(2) have est: "sysoff_estimate (triplets xs) 1 (of_nat ?n) =
      (case foldl keep_shorter (?e 0) (map ?e [1..<?n]) of
         (shortest_interval, best_timestamp, best_offset) \<Rightarrow>
           Some (best_offset, best_timestamp, shortest_interval))"
    by (rule sysoff_estimate_foldl)
  have "0 < ?n"
    using assms(1) by simp
  then have "[0..<?n] = 0 # [Suc 0..<?n]"
    by (rule upt_conv_Cons)
  then have upt: "[0..<?n] = 0 # [1..<?n]"
    by simp
  have "?e 0 # map ?e [1..<?n] = map ?e [0..<?n]"
    by (simp only: upt list.map)
  also have "\<dots> = map (\<lambda>x. estimate_of (sample_ns x)) xs"
    by (rule estimates_triplets) simp
  finally have "map (\<lambda>x. estimate_of (sample_ns x)) xs = ?e 0 # map ?e [1..<?n]"
    by (rule sym)
  then have "select (map (\<lambda>x. estimate_of (sample_ns x)) xs) = foldl keep_shorter (?e 0) (map ?e [1..<?n])"
    by (simp only: select_def list.sel)
  then show ?thesis
    by (simp only: est)
qed


lemma foldl_keep_shorter_le:
  assumes "x \<in> set (b # es)"
  shows "sint (fst (foldl keep_shorter b es)) \<le> sint (fst x)"
proof -
  obtain k where "foldl keep_shorter b es = (b # es) ! k"
    and le: "\<And>j. j < length (b # es) \<Longrightarrow> sint (fst ((b # es) ! k)) \<le> sint (fst ((b # es) ! j))"
    using foldl_keep_shorter_first_min [of b es] by blast
  moreover obtain j where "j < length (b # es)" and "(b # es) ! j = x"
    using assms by (meson in_set_conv_nth)
  ultimately show ?thesis
    using le [of j] by simp
qed

lemma keep_shorter_simps:
  "fst e <s fst best \<Longrightarrow> keep_shorter best e = e"
  "\<not> fst e <s fst best \<Longrightarrow> keep_shorter best e = best"
  by (simp_all add: keep_shorter_def)

lemma foldl_keep_shorter_forget:
  assumes "\<exists>e\<in>set es. fst e <s fst a"
  shows "foldl keep_shorter a es = select es"
  using assms
proof (induction es arbitrary: a)
  case Nil
  then show ?case by simp
next
  case (Cons e1 es)
  show ?case
  proof (cases "fst e1 <s fst a")
    case True
    then show ?thesis
      by (simp add: select_def keep_shorter_simps)
  next
    case False
    then obtain e where e: "e \<in> set es" "fst e <s fst a"
      using Cons.prems by auto
    have "fst e <s fst e1"
      using False e(2) by (simp add: word_sless_alt)
    then have "foldl keep_shorter e1 es = select es"
      using e(1) Cons.IH by blast
    moreover have "foldl keep_shorter a es = select es"
      using e Cons.IH by blast
    ultimately show ?thesis
      using False by (simp add: select_def keep_shorter_simps)
  qed
qed

lemma select_insert:
  assumes "\<exists>e\<in>set es. fst e <s fst s"
  shows "select (take p es @ s # drop p es) = select es"
proof (cases "take p es")
  case Nil
  then have "drop p es = es"
    by (metis append_Nil append_take_drop_id)
  then have "take p es @ s # drop p es = s # es"
    using Nil by simp
  then have "select (take p es @ s # drop p es) = foldl keep_shorter s es"
    by (simp add: select_def)
  then show ?thesis
    using assms by (simp add: foldl_keep_shorter_forget)
next
  case (Cons y ys)
  define zs where "zs = drop p es"
  have es: "es = y # ys @ zs"
    using Cons by (metis append_Cons append_take_drop_id zs_def)
  define c where "c = foldl keep_shorter y ys"
  have new: "select (take p es @ s # drop p es) = foldl keep_shorter (keep_shorter c s) zs"
    by (simp add: Cons select_def c_def zs_def)
  have old: "select es = foldl keep_shorter c zs"
    by (simp add: es select_def c_def)
  show ?thesis
  proof (cases "fst s <s fst c")
    case False
    then show ?thesis
      by (simp add: new old keep_shorter_simps)
  next
    case True
    obtain e where e: "e \<in> set es" "fst e <s fst s"
      using assms by blast
    have "e \<notin> set (y # ys)"
    proof
      assume "e \<in> set (y # ys)"
      then have "sint (fst c) \<le> sint (fst e)"
        unfolding c_def by (rule foldl_keep_shorter_le)
      then show False
        using True e(2) by (simp add: word_sless_alt)
    qed
    then have ez: "e \<in> set zs"
      using e(1) es by auto
    have "fst e <s fst c"
      using True e(2) by (simp add: word_sless_alt)
    then have "foldl keep_shorter c zs = select zs"
      using ez foldl_keep_shorter_forget by blast
    moreover have "foldl keep_shorter s zs = select zs"
      using ez e(2) foldl_keep_shorter_forget by blast
    ultimately show ?thesis
      using True by (simp add: new old keep_shorter_simps)
  qed
qed

lemma fst_estimate_of_sample: "fst (estimate_of (sample_ns x)) = sample_interval x"
  by (cases x) (simp add: estimate_of_def sample_ns_def sample_interval_def Let_def)

text \<open>
  Claim C2. Let \<open>xs\<close> be a non-empty sequence of bracketed samples and \<open>s\<close> a sample
  whose interval is strictly wider than the interval of some sample of \<open>xs\<close>, hence
  than the minimum. Inserting \<open>s\<close> at any position \<open>p\<close> leaves the returned offset,
  timestamp and delay unchanged.
\<close>

theorem sysoff_estimate_insert_wider:
  assumes "xs \<noteq> []" and "3 * (length xs + 1) < 2 ^ 31"
    and "\<exists>x\<in>set xs. sample_interval x <s sample_interval s"
  shows "sysoff_estimate (triplets (take p xs @ s # drop p xs)) 1
           (of_nat (length (take p xs @ s # drop p xs)))
       = sysoff_estimate (triplets xs) 1 (of_nat (length xs))
     \<and> sysoff_estimate (triplets xs) 1 (of_nat (length xs)) \<noteq> None"
proof -
  let ?g = "\<lambda>x. estimate_of (sample_ns x)"
  let ?ys = "take p xs @ s # drop p xs"
  have len: "length ?ys = length xs + 1"
    by simp
  have "?ys \<noteq> []" by simp
  moreover have "3 * length ?ys < 2 ^ 31"
    using assms(2) by (simp only: len)
  ultimately have new: "sysoff_estimate (triplets ?ys) 1 (of_nat (length ?ys)) =
     (case select (map ?g ?ys) of
        (shortest_interval, best_timestamp, best_offset) \<Rightarrow>
          Some (best_offset, best_timestamp, shortest_interval))"
    by (rule sysoff_estimate_triplets)
  have "3 * length xs < 2 ^ 31"
    using assms(2) by simp
  with assms(1) have old: "sysoff_estimate (triplets xs) 1 (of_nat (length xs)) =
     (case select (map ?g xs) of
        (shortest_interval, best_timestamp, best_offset) \<Rightarrow>
          Some (best_offset, best_timestamp, shortest_interval))"
    by (rule sysoff_estimate_triplets)
  have "map ?g ?ys = take p (map ?g xs) @ ?g s # drop p (map ?g xs)"
    by (simp add: take_map drop_map)
  moreover have "\<exists>e\<in>set (map ?g xs). fst e <s fst (?g s)"
    using assms(3) by (simp add: fst_estimate_of_sample)
  ultimately have "select (map ?g ?ys) = select (map ?g xs)"
    by (simp only: select_insert)
  then show ?thesis
    by (simp only: new old) (simp split: prod.splits)
qed

theorem sysoff_estimate_insert_wider_witness:
  "sysoff_estimate
     (triplets (take 1 [(at_ns 100, at_ns 150, at_ns 300), (at_ns 1000, at_ns 1040, at_ns 1100)]
        @ (at_ns 0, at_ns 5, at_ns 500)
        # drop 1 [(at_ns 100, at_ns 150, at_ns 300), (at_ns 1000, at_ns 1040, at_ns 1100)])) 1
     (of_nat (length [(at_ns 100, at_ns 150, at_ns 300), (at_ns 1000, at_ns 1040, at_ns 1100)] + 1))
   = sysoff_estimate
       (triplets [(at_ns 100, at_ns 150, at_ns 300), (at_ns 1000, at_ns 1040, at_ns 1100)]) 1
       (of_nat (length [(at_ns 100, at_ns 150, at_ns 300), (at_ns 1000, at_ns 1040, at_ns 1100)]))
   \<and> sysoff_estimate
       (triplets [(at_ns 100, at_ns 150, at_ns 300), (at_ns 1000, at_ns 1040, at_ns 1100)]) 1
       (of_nat (length [(at_ns 100, at_ns 150, at_ns 300), (at_ns 1000, at_ns 1040, at_ns 1100)]))
     \<noteq> None"
proof -
  have "sample_interval (at_ns 1000, at_ns 1040, at_ns 1100) <s sample_interval (at_ns 0, at_ns 5, at_ns 500)"
    by (simp add: sample_interval_def at_ns_def pctns_def word_sless_alt)
  then have "\<exists>x\<in>set [(at_ns 100, at_ns 150, at_ns 300), (at_ns 1000, at_ns 1040, at_ns 1100)].
      sample_interval x <s sample_interval (at_ns 0, at_ns 5, at_ns 500)"
    by simp
  then show ?thesis
    using sysoff_estimate_insert_wider
      [of "[(at_ns 100, at_ns 150, at_ns 300), (at_ns 1000, at_ns 1040, at_ns 1100)]"
          "(at_ns 0, at_ns 5, at_ns 500)" 1]
    by simp
qed

section \<open>Sample selector: the integer mid-point\<close>

lemma sint_add_s64:
  fixes a b :: s64
  assumes "- (2 ^ 63) \<le> sint a + sint b" and "sint a + sint b < 2 ^ 63"
  shows "sint (a + b) = sint a + sint b"
  using assms by (simp add: sint_word_ariths signed_take_bit_int_eq_self)

lemma sdiv_2_range:
  fixes s :: int
  assumes "- (2 ^ 63) \<le> s" and "s < 2 ^ 63"
  shows "- (2 ^ 63) \<le> s sdiv 2 \<and> s sdiv 2 < 2 ^ 63"
proof (cases "0 \<le> s")
  case True
  then show ?thesis
    using assms by (simp add: sdiv_nonneg) linarith
next
  case False
  then show ?thesis
    using assms by (simp add: sdiv_nonpos) linarith
qed

lemma sint_div_s64_2:
  fixes x :: s64
  shows "sint (div_s64 x 2) = sint x sdiv 2"
proof -
  have "- (2 ^ 63) \<le> sint x" "sint x < 2 ^ 63"
    using sint_ge [of x] sint_lt [of x] by simp_all
  then have "- (2 ^ 63) \<le> sint x sdiv 2 \<and> sint x sdiv 2 < 2 ^ 63"
    by (rule sdiv_2_range)
  then show ?thesis
    by (simp add: div_s64_def sint_word_of_int_64)
qed

text \<open>
  Claim C9, as amended. For every bracket whose sum \<open>after + before\<close> fits the signed
  64-bit range, the mid-point is the sum divided by two and truncated towards zero: when
  the sum is odd and non-negative it is the earlier of the two neighbouring instants
  (half a nanosecond below the exact mid-point), and when the sum is odd and negative it
  is the later one (half a nanosecond above).
\<close>

theorem midpoint_truncation:
  assumes "- (2 ^ 63) \<le> sint after + sint before" and "sint after + sint before < 2 ^ 63"
  shows "sint (fst (snd (estimate_of (before, hw, after)))) = (sint after + sint before) sdiv 2
    \<and> (0 \<le> sint after + sint before \<longrightarrow>
         2 * sint (fst (snd (estimate_of (before, hw, after))))
           = (sint after + sint before) - (sint after + sint before) mod 2)
    \<and> (sint after + sint before < 0 \<longrightarrow>
         2 * sint (fst (snd (estimate_of (before, hw, after))))
           = (sint after + sint before) + (sint after + sint before) mod 2)"
proof -
  let ?s = "sint after + sint before"
  have mid: "sint (fst (snd (estimate_of (before, hw, after)))) = ?s sdiv 2"
    using assms by (simp add: estimate_of_def Let_def sint_div_s64_2 sint_add_s64)
  have "2 * (?s sdiv 2) = ?s - ?s mod 2" if "0 \<le> ?s"
    using that by (simp add: sdiv_nonneg) presburger
  moreover have "2 * (?s sdiv 2) = ?s + ?s mod 2" if "?s < 0"
    using that by (simp add: sdiv_nonpos) presburger
  ultimately show ?thesis
    using mid by simp
qed

theorem midpoint_truncation_witness:
  "sint (fst (snd (estimate_of (100, 150, 301)))) = (sint (301 :: s64) + sint (100 :: s64)) sdiv 2
    \<and> 2 * sint (fst (snd (estimate_of (100, 150, 301)))) = 400
    \<and> 2 * sint (fst (snd (estimate_of (- 3, - 10, - 2)))) = - 4"
  using midpoint_truncation [of 301 100 150] midpoint_truncation [of "- 2" "- 3" "- 10"]
  by simp

text \<open>
  The claim as stated fails before the epoch: for the bracket \<open>(-3, -10, -2)\<close>
  nanoseconds the sum is \<open>-5\<close> and the returned timestamp is \<open>-2\<close>, later than the
  exact mid-point \<open>-2.5\<close>.
\<close>

theorem midpoint_negative_counterexample:
  "sysoff_estimate
     [\<lparr>sec = - 1, nsec = 999999997, reserved = 0\<rparr>,
      \<lparr>sec = - 1, nsec = 999999990, reserved = 0\<rparr>,
      \<lparr>sec = - 1, nsec = 999999998, reserved = 0\<rparr>] 1 1 = Some (8, - 2, 1)
   \<and> sint (pctns \<lparr>sec = - 1, nsec = 999999998, reserved = 0\<rparr>)
       + sint (pctns \<lparr>sec = - 1, nsec = 999999997, reserved = 0\<rparr>) = - 5
   \<and> - 5 < 2 * sint (- 2 :: s64)"
  by (simp add: sysoff_estimate_def read_triplet_def pct_at_def pctns_def NS_PER_SEC_def
      estimate_of_def div_s64_def signed_divide_int_def estimate_loop.simps)

section \<open>Sample selector: at most one sample\<close>

lemma estimate_loop_skip:
  assumes "n_samples \<le>s 1"
  shows "estimate_loop pct extended n_samples 1 best = Some best"
proof -
  have "\<not> 1 <s n_samples"
    using assms by (simp add: word_sle_eq word_sless_alt)
  then show ?thesis
    by (subst estimate_loop.simps) simp
qed

lemma sysoff_estimate_first:
  assumes "n_samples \<le>s 1"
  shows "sysoff_estimate pct extended n_samples =
     (case read_triplet pct extended 0 of
        None \<Rightarrow> None
      | Some tr \<Rightarrow>
          (case estimate_of tr of
             (interval, timestamp, offset) \<Rightarrow> Some (offset, timestamp, interval)))"
  by (simp add: sysoff_estimate_def estimate_loop_skip [OF assms] split: option.splits prod.splits)

lemma read_triplet_zero:
  assumes "take 3 pct = [zero_pct, zero_pct, zero_pct]"
  shows "read_triplet pct extended 0 = Some (0, 0, 0)"
proof -
  obtain rest where pct: "pct = zero_pct # zero_pct # zero_pct # rest"
    using assms by (metis append_Cons append_Nil append_take_drop_id)
  have "pctns zero_pct = 0"
    by (simp add: pctns_def zero_pct_def)
  then show ?thesis
    by (subst pct)+ (simp add: read_triplet_def pct_at_def)
qed

text \<open>
  Claim C10. With \<open>n_samples \<le> 1\<close>, zero and negative values included, the loop
  returns the state it was given, and the result is offset, mid-point and interval of
  the first triplet of the array. A measurement by the Extended or the Basic method with
  \<open>n_samples = 0\<close> whose request succeeds and leaves the first triplet zero reports the
  method as successful, with the result \<open>(0, 0, 0)\<close>.
\<close>

theorem sysoff_estimate_single:
  "(n_samples \<le>s 1 \<longrightarrow>
      estimate_loop pct extended n_samples 1 best = Some best
    \<and> sysoff_estimate pct extended n_samples =
        (case read_triplet pct extended 0 of
           None \<Rightarrow> None
         | Some tr \<Rightarrow>
             (case estimate_of tr of
                (interval, timestamp, offset) \<Rightarrow> Some (offset, timestamp, interval))))
   \<and> (ioctl_extended fd (calls st) (zero_extended\<lparr>extended_n_samples := 0\<rparr>) = (0, psx)
      \<and> take 3 (extended_ts psx) = [zero_pct, zero_pct, zero_pct] \<longrightarrow>
      sysoff_measure h fd SYSOFF_EXTENDED 0 st out =
        Some (SYSOFF_EXTENDED,
              called (Ioctl_PTP_SYS_OFFSET_EXTENDED (zero_extended\<lparr>extended_n_samples := 0\<rparr>)) st,
              (0, 0, 0)))
   \<and> (ioctl_basic fd (calls st) (zero_basic\<lparr>basic_n_samples := 0\<rparr>) = (0, pso)
      \<and> take 3 (basic_ts pso) = [zero_pct, zero_pct, zero_pct] \<longrightarrow>
      sysoff_measure h fd SYSOFF_BASIC 0 st out =
        Some (SYSOFF_BASIC,
              called (Ioctl_PTP_SYS_OFFSET (zero_basic\<lparr>basic_n_samples := 0\<rparr>)) st,
              (0, 0, 0)))"
proof (intro conjI impI)
  assume "n_samples \<le>s 1"
  then show "estimate_loop pct extended n_samples 1 best = Some best"
    and "sysoff_estimate pct extended n_samples =
        (case read_triplet pct extended 0 of
           None \<Rightarrow> None
         | Some tr \<Rightarrow>
             (case estimate_of tr of
                (interval, timestamp, offset) \<Rightarrow> Some (offset, timestamp, interval)))"
    by (simp_all only: estimate_loop_skip sysoff_estimate_first)
next
  have zero: "estimate_of (0, 0, 0) = (0, 0, 0)"
    by (simp add: estimate_of_def div_s64_def)
  have est: "sysoff_estimate ts e 0 = Some (0, 0, 0)"
    if "take 3 ts = [zero_pct, zero_pct, zero_pct]" for ts e
    using that by (simp add: sysoff_estimate_first read_triplet_zero zero word_sle_eq)
  {
    assume "ioctl_extended fd (calls st) (zero_extended\<lparr>extended_n_samples := 0\<rparr>) = (0, psx)
      \<and> take 3 (extended_ts psx) = [zero_pct, zero_pct, zero_pct]"
    then show "sysoff_measure h fd SYSOFF_EXTENDED 0 st out =
        Some (SYSOFF_EXTENDED,
              called (Ioctl_PTP_SYS_OFFSET_EXTENDED (zero_extended\<lparr>extended_n_samples := 0\<rparr>)) st,
              (0, 0, 0))"
      by (simp add: sysoff_measure_def sysoff_extended_def est SYSOFF_EXTENDED_def
          SYSOFF_CROSS_def SYSOFF_PRECISE_def split: prod.splits)
  }
  {
    assume "ioctl_basic fd (calls st) (zero_basic\<lparr>basic_n_samples := 0\<rparr>) = (0, pso)
      \<and> take 3 (basic_ts pso) = [zero_pct, zero_pct, zero_pct]"
    then show "sysoff_measure h fd SYSOFF_BASIC 0 st out =
        Some (SYSOFF_BASIC,
              called (Ioctl_PTP_SYS_OFFSET (zero_basic\<lparr>basic_n_samples := 0\<rparr>)) st,
              (0, 0, 0))"
      by (simp add: sysoff_measure_def sysoff_basic_def est SYSOFF_EXTENDED_def SYSOFF_BASIC_def
          SYSOFF_CROSS_def SYSOFF_PRECISE_def split: prod.splits)
  }
qed

theorem sysoff_estimate_single_witness:
  "estimate_loop [at_ns 100, at_ns 150, at_ns 300, at_ns 1000, at_ns 1040, at_ns 1100] 1 (- 4) 1
     (200, 200, 50) = Some (200, 200, 50)
   \<and> sysoff_estimate [at_ns 100, at_ns 150, at_ns 300, at_ns 1000, at_ns 1040, at_ns 1100] 1 (- 4)
     = Some (50, 200, 200)
   \<and> sysoff_measure example_header (no_device\<lparr>ioctl_extended := (\<lambda>cs pso. (0, pso))\<rparr>)
        SYSOFF_EXTENDED 0 start (7, 7, 7)
     = Some (SYSOFF_EXTENDED,
             called (Ioctl_PTP_SYS_OFFSET_EXTENDED (zero_extended\<lparr>extended_n_samples := 0\<rparr>)) start,
             (0, 0, 0))
   \<and> sysoff_measure example_header (no_device\<lparr>ioctl_basic := (\<lambda>cs pso. (0, pso))\<rparr>)
        SYSOFF_BASIC 0 start (7, 7, 7)
     = Some (SYSOFF_BASIC,
             called (Ioctl_PTP_SYS_OFFSET (zero_basic\<lparr>basic_n_samples := 0\<rparr>)) start,
             (0, 0, 0))"
proof -
  have r3: "replicate 3 zero_pct = [zero_pct, zero_pct, zero_pct]"
    by (simp add: numeral_3_eq_3)
  show ?thesis
  using
    sysoff_estimate_single
      [where n_samples = "- 4"
         and pct = "[at_ns 100, at_ns 150, at_ns 300, at_ns 1000, at_ns 1040, at_ns 1100]"
         and extended = 1 and best = "(200, 200, 50)"]
    sysoff_estimate_single
      [where fd = "no_device\<lparr>ioctl_extended := (\<lambda>cs pso. (0, pso))\<rparr>" and st = start
         and psx = "zero_extended\<lparr>extended_n_samples := 0\<rparr>" and h = example_header
         and out = "(7, 7, 7)"]
    sysoff_estimate_single
      [where fd = "no_device\<lparr>ioctl_basic := (\<lambda>cs pso. (0, pso))\<rparr>" and st = start
         and pso = "zero_basic\<lparr>basic_n_samples := 0\<rparr>" and h = example_header
         and out = "(7, 7, 7)"]
  by (simp add: no_device_def zero_extended_def zero_basic_def PTP_MAX_SAMPLES_def word_sle_eq
      read_triplet_def pct_at_def at_ns_def pctns_def estimate_of_def div_s64_def r3)
qed

section \<open>Precise sampler through the dispatcher\<close>

text \<open>
  Claim C6. Through \<open>sysoff_measure\<close> with the Precise method, a request that succeeds
  gives \<open>offset = pctns(sys_realtime) - pctns(device)\<close>,
  \<open>timestamp = pctns(sys_realtime)\<close> and \<open>delay = 0\<close>; a request that fails gives
  \<open>SYSOFF_RUN_TIME_MISSING\<close>, and \<open>result\<close> and \<open>ts\<close> keep their values.
\<close>

theorem sysoff_measure_precise:
  assumes "ioctl_precise fd (calls st) zero_precise = (r, pso)"
  shows "sysoff_measure h fd SYSOFF_PRECISE n_samples st (result, ts, delay) =
     (if r = 0 then
        Some (SYSOFF_PRECISE, called (Ioctl_PTP_SYS_OFFSET_PRECISE zero_precise) st,
              (pctns (sys_realtime pso) - pctns (device pso), pctns (sys_realtime pso), 0))
      else
        Some (SYSOFF_RUN_TIME_MISSING,
              said (Pr_debug ''ioctl PTP_SYS_OFFSET_PRECISE: %m'')
                (called (Ioctl_PTP_SYS_OFFSET_PRECISE zero_precise) st),
              (result, ts, 0)))"
  using assms
  by (simp add: sysoff_measure_def sysoff_precise_def SYSOFF_PRECISE_def SYSOFF_CROSS_def)

theorem sysoff_measure_precise_witness:
  "sysoff_measure example_header
     (no_device\<lparr>ioctl_precise := (\<lambda>cs pso. (0, pso\<lparr>device := \<lparr>sec = 4, nsec = 999999950, reserved = 0\<rparr>,
                                                    sys_realtime := \<lparr>sec = 5, nsec = 0, reserved = 0\<rparr>\<rparr>))\<rparr>)
     SYSOFF_PRECISE 1 start (7, 7, 7)
   = Some (SYSOFF_PRECISE, called (Ioctl_PTP_SYS_OFFSET_PRECISE zero_precise) start, (50, 5000000000, 0))
   \<and> sysoff_measure example_header no_device SYSOFF_PRECISE 1 start (7, 7, 7)
   = Some (SYSOFF_RUN_TIME_MISSING,
           said (Pr_debug ''ioctl PTP_SYS_OFFSET_PRECISE: %m'')
             (called (Ioctl_PTP_SYS_OFFSET_PRECISE zero_precise) start),
           (7, 7, 0))"
  using sysoff_measure_precise
      [of "no_device\<lparr>ioctl_precise := (\<lambda>cs pso. (0, pso\<lparr>device := \<lparr>sec = 4, nsec = 999999950, reserved = 0\<rparr>,
                                                    sys_realtime := \<lparr>sec = 5, nsec = 0, reserved = 0\<rparr>\<rparr>))\<rparr>"
          start 0
          "zero_precise\<lparr>device := \<lparr>sec = 4, nsec = 999999950, reserved = 0\<rparr>,
                                                    sys_realtime := \<lparr>sec = 5, nsec = 0, reserved = 0\<rparr>\<rparr>"
          example_header 1 7 7 7]
    sysoff_measure_precise [of no_device start "- 1" zero_precise example_header 1 7 7 7]
  by (simp add: no_device_def pctns_def NS_PER_SEC_def)

section \<open>Cross sampler\<close>

lemma last_record_slice:
  assumes "0 < sz" and "length earlier = k * sz" and "length final = sz" and "length rest < sz"
  shows "int (length (earlier @ final @ rest)) div int sz = int k + 1"
    and "take sz (drop (k * sz) ((earlier @ final @ rest) @ junk)) = final"
proof -
  have len: "length (earlier @ final @ rest) = (k + 1) * sz + length rest"
    using assms(2,3) by simp
  have "((k + 1) * sz + length rest) div sz = (k + 1) + length rest div sz"
    using assms(1) by (simp only: div_mult_self3) 
  also have "\<dots> = k + 1"
    using assms(4) by simp
  finally have "length (earlier @ final @ rest) div sz = k + 1"
    by (simp only: len)
  then have "int (length (earlier @ final @ rest) div sz) = int (k + 1)"
    by (rule arg_cong)
  then show "int (length (earlier @ final @ rest)) div int sz = int k + 1"
    by (simp only: zdiv_int of_nat_add of_nat_1)
  show "take sz (drop (k * sz) ((earlier @ final @ rest) @ junk)) = final"
    using assms(2,3) by simp
qed

text \<open>
  Claim C5. The Cross sampler returns \<open>SYSOFF_RUN_TIME_MISSING\<close> and leaves the outputs
  alone when \<open>poll\<close> reports nothing, when \<open>read\<close> fails, when fewer bytes than one
  record arrive, and when the last complete record has the validity flag unset. Otherwise,
  with the bytes read made of \<open>k\<close> earlier records, the last complete record \<open>final\<close>
  and an incomplete rest, it returns \<open>SYSOFF_CROSS\<close> with
  \<open>offset = pctns(final.t) - final.tstamp\<close>, \<open>timestamp = pctns(final.t)\<close> and the
  delay field of \<open>final.flags\<close>, whatever the earlier records are.
\<close>

theorem sysoff_cross_last_record:
  assumes "0 < sizeof_event h"
  shows
   "(poll_fd fd (calls st) < 1 \<longrightarrow>
       fst (sysoff_cross h fd st out) = SYSOFF_RUN_TIME_MISSING
     \<and> snd (snd (sysoff_cross h fd st out)) = out)
  \<and> (1 \<le> poll_fd fd (calls st) \<and> read_fd fd (calls st @ [Poll_POLLIN]) 4096 = None \<longrightarrow>
       fst (sysoff_cross h fd st out) = SYSOFF_RUN_TIME_MISSING
     \<and> snd (snd (sysoff_cross h fd st out)) = out)
  \<and> (1 \<le> poll_fd fd (calls st) \<and> read_fd fd (calls st @ [Poll_POLLIN]) 4096 = Some bytes
       \<and> length (take 4096 bytes) < sizeof_event h \<longrightarrow>
       fst (sysoff_cross h fd st out) = SYSOFF_RUN_TIME_MISSING
     \<and> snd (snd (sysoff_cross h fd st out)) = out)
  \<and> (1 \<le> poll_fd fd (calls st) \<and> read_fd fd (calls st @ [Poll_POLLIN]) 4096 = Some bytes
       \<and> take 4096 bytes = earlier @ final @ rest
       \<and> length earlier = k * sizeof_event h \<and> length final = sizeof_event h
       \<and> length rest < sizeof_event h \<longrightarrow>
       (if event_flags (event_of_bytes h final) AND PTP_EVENT_CROSS h = 0 then
          fst (sysoff_cross h fd st out) = SYSOFF_RUN_TIME_MISSING
        \<and> snd (snd (sysoff_cross h fd st out)) = out
        else
          fst (sysoff_cross h fd st out) = SYSOFF_CROSS
        \<and> snd (snd (sysoff_cross h fd st out)) =
            (pctns (event_t (event_of_bytes h final)) - event_tstamp (event_of_bytes h final),
             pctns (event_t (event_of_bytes h final)),
             PTP_EVENT_CROSS_DELAY h (event_flags (event_of_bytes h final)))))"
proof (intro conjI impI)
  assume "poll_fd fd (calls st) < 1"
  then show "fst (sysoff_cross h fd st out) = SYSOFF_RUN_TIME_MISSING"
    and "snd (snd (sysoff_cross h fd st out)) = out"
    by (simp_all add: sysoff_cross_def)
next
  assume a: "1 \<le> poll_fd fd (calls st) \<and> read_fd fd (calls st @ [Poll_POLLIN]) 4096 = None"
  then show "fst (sysoff_cross h fd st out) = SYSOFF_RUN_TIME_MISSING"
    and "snd (snd (sysoff_cross h fd st out)) = out"
    by (simp_all add: sysoff_cross_def called_def)
next
  assume a: "1 \<le> poll_fd fd (calls st) \<and> read_fd fd (calls st @ [Poll_POLLIN]) 4096 = Some bytes
       \<and> length (take 4096 bytes) < sizeof_event h"
  then show "fst (sysoff_cross h fd st out) = SYSOFF_RUN_TIME_MISSING"
    and "snd (snd (sysoff_cross h fd st out)) = out"
    by (simp_all add: sysoff_cross_def called_def Let_def)
next
  assume a: "1 \<le> poll_fd fd (calls st) \<and> read_fd fd (calls st @ [Poll_POLLIN]) 4096 = Some bytes
       \<and> take 4096 bytes = earlier @ final @ rest
       \<and> length earlier = k * sizeof_event h \<and> length final = sizeof_event h
       \<and> length rest < sizeof_event h"
  define data where "data = earlier @ final @ rest"
  let ?sz = "sizeof_event h"
  have poll: "\<not> poll_fd fd (calls st) < 1"
    using a by simp
  have got: "read_fd fd (calls st @ [Poll_POLLIN]) 4096 = Some bytes"
    using a by simp
  have data: "take 4096 bytes = data"
    using a by (simp only: data_def)
  have num: "int (length data) div int ?sz = int k + 1"
    and slice: "take ?sz (drop (k * ?sz) (data @ junk)) = final" for junk
    unfolding data_def using assms a by (simp_all only: last_record_slice)
  have "?sz \<le> length data"
    unfolding data_def using a by simp
  then have big: "\<not> length data < ?sz"
    by (simp only: not_less)
  have idx: "nat (int k + 1 - 1) * ?sz = k * ?sz"
    by simp
  have ev: "sysoff_cross h fd st out =
      (let event = event_of_bytes h final;
           st3 = (called (Read 4096) (called Poll_POLLIN st))
                   \<lparr>buf := data @ drop (length data) (buf st)\<rparr>
       in if event_flags event AND PTP_EVENT_CROSS h = 0 then
            (SYSOFF_RUN_TIME_MISSING, said (Pr_debug ''invalid event flags'') st3, out)
          else
            (SYSOFF_CROSS, st3,
             (pctns (event_t event) - event_tstamp event, pctns (event_t event),
              PTP_EVENT_CROSS_DELAY h (event_flags event))))"
    by (simp add: sysoff_cross_def called_def Let_def poll got data big num idx slice
        del: drop_append take_append)
  show "if event_flags (event_of_bytes h final) AND PTP_EVENT_CROSS h = 0 then
          fst (sysoff_cross h fd st out) = SYSOFF_RUN_TIME_MISSING
        \<and> snd (snd (sysoff_cross h fd st out)) = out
        else
          fst (sysoff_cross h fd st out) = SYSOFF_CROSS
        \<and> snd (snd (sysoff_cross h fd st out)) =
            (pctns (event_t (event_of_bytes h final)) - event_tstamp (event_of_bytes h final),
             pctns (event_t (event_of_bytes h final)),
             PTP_EVENT_CROSS_DELAY h (event_flags (event_of_bytes h final)))"
    by (simp add: ev Let_def)
qed

theorem sysoff_cross_last_record_witness:
  "fst (sysoff_cross example_header
          (no_device\<lparr>poll_fd := (\<lambda>cs. 1),
                      read_fd := (\<lambda>cs count. Some [10, 3, 1, 0, 20, 4, 0, 0, 90, 30, 7, 0, 1, 2])\<rparr>)
          start (7, 7, 7)) = SYSOFF_CROSS
   \<and> snd (snd (sysoff_cross example_header
          (no_device\<lparr>poll_fd := (\<lambda>cs. 1),
                      read_fd := (\<lambda>cs count. Some [10, 3, 1, 0, 20, 4, 0, 0, 90, 30, 7, 0, 1, 2])\<rparr>)
          start (7, 7, 7))) = (60, 90, 3)
   \<and> fst (sysoff_cross example_header
          (no_device\<lparr>poll_fd := (\<lambda>cs. 1),
                      read_fd := (\<lambda>cs count. Some [10, 3, 1, 0, 20, 4, 0, 0])\<rparr>)
          start (7, 7, 7)) = SYSOFF_RUN_TIME_MISSING
   \<and> fst (sysoff_cross example_header
          (no_device\<lparr>poll_fd := (\<lambda>cs. 1), read_fd := (\<lambda>cs count. Some [10, 3, 1])\<rparr>)
          start (7, 7, 7)) = SYSOFF_RUN_TIME_MISSING
   \<and> fst (sysoff_cross example_header (no_device\<lparr>poll_fd := (\<lambda>cs. 1)\<rparr>) start (7, 7, 7))
       = SYSOFF_RUN_TIME_MISSING
   \<and> fst (sysoff_cross example_header no_device start (7, 7, 7)) = SYSOFF_RUN_TIME_MISSING"
  using
    sysoff_cross_last_record
      [where h = example_header
         and fd = "no_device\<lparr>poll_fd := (\<lambda>cs. 1),
                      read_fd := (\<lambda>cs count. Some [10, 3, 1, 0, 20, 4, 0, 0, 90, 30, 7, 0, 1, 2])\<rparr>"
         and st = start and out = "(7, 7, 7)"
         and bytes = "[10, 3, 1, 0, 20, 4, 0, 0, 90, 30, 7, 0, 1, 2]"
         and earlier = "[10, 3, 1, 0, 20, 4, 0, 0]" and final = "[90, 30, 7, 0]"
         and rest = "[1, 2]" and k = 2]
    sysoff_cross_last_record
      [where h = example_header
         and fd = "no_device\<lparr>poll_fd := (\<lambda>cs. 1),
                      read_fd := (\<lambda>cs count. Some [10, 3, 1, 0, 20, 4, 0, 0])\<rparr>"
         and st = start and out = "(7, 7, 7)"
         and bytes = "[10, 3, 1, 0, 20, 4, 0, 0]"
         and earlier = "[10, 3, 1, 0]" and final = "[20, 4, 0, 0]"
         and rest = "[]" and k = 1]
    sysoff_cross_last_record
      [where h = example_header
         and fd = "no_device\<lparr>poll_fd := (\<lambda>cs. 1), read_fd := (\<lambda>cs count. Some [10, 3, 1])\<rparr>"
         and st = start and out = "(7, 7, 7)" and bytes = "[10, 3, 1]"]
    sysoff_cross_last_record
      [where h = example_header and fd = "no_device\<lparr>poll_fd := (\<lambda>cs. 1)\<rparr>"
         and st = start and out = "(7, 7, 7)"]
    sysoff_cross_last_record
      [where h = example_header and fd = no_device and st = start and out = "(7, 7, 7)"]
  by (simp add: example_header_def no_device_def start_def at_ns_def pctns_def)

section \<open>Failure reports of the samplers\<close>

text \<open>
  Claim C8, as amended. When its request fails, the Basic sampler returns the generic
  \<open>SYSOFF_RUN_TIME_MISSING\<close>, as the Extended, Precise and Cross samplers do, and
  leaves the outputs alone. The asymmetry is in the diagnostic only: Basic writes it with
  \<open>perror\<close>, the other three with \<open>pr_debug\<close>.
\<close>

theorem sampler_failure_reports:
  "(fst (ioctl_basic fd (calls st) (zero_basic\<lparr>basic_n_samples := n_samples\<rparr>)) \<noteq> 0 \<longrightarrow>
      sysoff_basic fd n_samples st out =
        Some (SYSOFF_RUN_TIME_MISSING,
              said (Perror ''ioctl PTP_SYS_OFFSET'')
                (called (Ioctl_PTP_SYS_OFFSET (zero_basic\<lparr>basic_n_samples := n_samples\<rparr>)) st),
              out))
   \<and> (fst (ioctl_extended fd (calls st) (zero_extended\<lparr>extended_n_samples := n_samples\<rparr>)) \<noteq> 0 \<longrightarrow>
      sysoff_extended fd n_samples st out =
        Some (SYSOFF_RUN_TIME_MISSING,
              said (Pr_debug ''ioctl PTP_SYS_OFFSET_EXTENDED: %m'')
                (called (Ioctl_PTP_SYS_OFFSET_EXTENDED
                           (zero_extended\<lparr>extended_n_samples := n_samples\<rparr>)) st),
              out))
   \<and> (fst (ioctl_precise fd (calls st) zero_precise) \<noteq> 0 \<longrightarrow>
      sysoff_precise fd st out2 =
        (SYSOFF_RUN_TIME_MISSING,
         said (Pr_debug ''ioctl PTP_SYS_OFFSET_PRECISE: %m'')
           (called (Ioctl_PTP_SYS_OFFSET_PRECISE zero_precise) st),
         out2))
   \<and> (poll_fd fd (calls st) < 1 \<longrightarrow>
      sysoff_cross h fd st out =
        (SYSOFF_RUN_TIME_MISSING,
         said (Pr_debug ''poll sysoff_cross: %m'') (called Poll_POLLIN st), out))
   \<and> (1 \<le> poll_fd fd (calls st) \<and> read_fd fd (calls st @ [Poll_POLLIN]) 4096 = None \<longrightarrow>
      sysoff_cross h fd st out =
        (SYSOFF_RUN_TIME_MISSING,
         said (Pr_debug ''read sysoff_cross: %m'') (called (Read 4096) (called Poll_POLLIN st)),
         out))"
  by (auto simp add: sysoff_basic_def sysoff_extended_def sysoff_precise_def sysoff_cross_def
      called_def Let_def split: prod.splits)

theorem sampler_failure_reports_witness:
  "sysoff_basic no_device 1 start (7, 7, 7) =
        Some (SYSOFF_RUN_TIME_MISSING,
              said (Perror ''ioctl PTP_SYS_OFFSET'')
                (called (Ioctl_PTP_SYS_OFFSET (zero_basic\<lparr>basic_n_samples := 1\<rparr>)) start),
              (7, 7, 7))
   \<and> sysoff_extended no_device 1 start (7, 7, 7) =
        Some (SYSOFF_RUN_TIME_MISSING,
              said (Pr_debug ''ioctl PTP_SYS_OFFSET_EXTENDED: %m'')
                (called (Ioctl_PTP_SYS_OFFSET_EXTENDED (zero_extended\<lparr>extended_n_samples := 1\<rparr>)) start),
              (7, 7, 7))
   \<and> sysoff_precise no_device start (7, 7) =
        (SYSOFF_RUN_TIME_MISSING,
         said (Pr_debug ''ioctl PTP_SYS_OFFSET_PRECISE: %m'')
           (called (Ioctl_PTP_SYS_OFFSET_PRECISE zero_precise) start),
         (7, 7))
   \<and> sysoff_cross example_header no_device start (7, 7, 7) =
        (SYSOFF_RUN_TIME_MISSING,
         said (Pr_debug ''poll sysoff_cross: %m'') (called Poll_POLLIN start), (7, 7, 7))
   \<and> sysoff_cross example_header (no_device\<lparr>poll_fd := (\<lambda>cs. 1)\<rparr>) start (7, 7, 7) =
        (SYSOFF_RUN_TIME_MISSING,
         said (Pr_debug ''read sysoff_cross: %m'') (called (Read 4096) (called Poll_POLLIN start)),
         (7, 7, 7))"
  using sampler_failure_reports [of no_device start 1 "(7, 7, 7)" "(7, 7)" example_header]
    sampler_failure_reports [of "no_device\<lparr>poll_fd := (\<lambda>cs. 1)\<rparr>" start 1 "(7, 7, 7)" "(7, 7)" example_header]
  by (simp add: no_device_def)

text \<open>
  The claim as stated fails on the device that refuses every request: the Basic sampler
  reports the same generic code as the other three methods.
\<close>

theorem basic_failure_code_counterexample:
  "fst (ioctl_basic no_device (calls start) (zero_basic\<lparr>basic_n_samples := 1\<rparr>)) \<noteq> 0
   \<and> map_option fst (sysoff_basic no_device 1 start (7, 7, 7)) = Some SYSOFF_RUN_TIME_MISSING
   \<and> map_option fst (sysoff_extended no_device 1 start (7, 7, 7)) = Some SYSOFF_RUN_TIME_MISSING
   \<and> map_option fst (sysoff_measure example_header no_device SYSOFF_PRECISE 1 start (7, 7, 7))
       = Some SYSOFF_RUN_TIME_MISSING
   \<and> map_option fst (sysoff_measure example_header no_device SYSOFF_CROSS 1 start (7, 7, 7))
       = Some SYSOFF_RUN_TIME_MISSING"
  by (simp add: no_device_def sysoff_basic_def sysoff_extended_def sysoff_measure_def
      sysoff_precise_def sysoff_cross_def SYSOFF_PRECISE_def SYSOFF_CROSS_def Let_def)

section \<open>Prober: too many samples\<close>

text \<open>
  Claim C4. With \<open>n_samples\<close> above \<open>PTP_MAX_SAMPLES\<close> the prober returns
  \<open>SYSOFF_RUN_TIME_MISSING\<close>; the state it leaves differs from the one it found by the
  two lines of the warning only, so no request has reached the device.
\<close>

theorem sysoff_probe_too_many_samples:
  assumes "PTP_MAX_SAMPLES <s n_samples"
  shows "sysoff_probe h fd n_samples st out =
     Some (SYSOFF_RUN_TIME_MISSING,
           st\<lparr>msgs := msgs st @
             [Fprintf_stderr (''warning: %d exceeds kernel max readings %d'' @ [CHR 0x0A])
                [sint n_samples, sint PTP_MAX_SAMPLES],
              Fprintf_stderr (''falling back to clock_gettime method'' @ [CHR 0x0A]) []]\<rparr>)"
  using assms by (simp add: sysoff_probe_def said_def)

theorem sysoff_probe_too_many_samples_witness:
  "sysoff_probe example_header no_device 100 start (7, 7, 7) =
     Some (SYSOFF_RUN_TIME_MISSING,
           start\<lparr>msgs := msgs start @
             [Fprintf_stderr (''warning: %d exceeds kernel max readings %d'' @ [CHR 0x0A]) [100, 25],
              Fprintf_stderr (''falling back to clock_gettime method'' @ [CHR 0x0A]) []]\<rparr>)"
  using sysoff_probe_too_many_samples [of 100 example_header no_device start "(7, 7, 7)"]
  by (simp add: PTP_MAX_SAMPLES_def word_sless_alt)

section \<open>Prober: priority of the methods\<close>

lemma calls_called [simp]: "calls (called r st) = calls st @ [r]"
  by (simp add: called_def)

lemma calls_said [simp]: "calls (said m st) = calls st"
  by (simp add: said_def)

lemma sysoff_estimate_defined:
  assumes "n_samples \<le>s PTP_MAX_SAMPLES"
    and "if extended \<noteq> 0 then 3 * unat PTP_MAX_SAMPLES \<le> length pct
         else 2 * unat PTP_MAX_SAMPLES + 1 \<le> length pct"
  shows "\<exists>est. sysoff_estimate pct extended n_samples = Some est"
proof (cases "n_samples \<le>s 1")
  case True
  have len: "3 \<le> length pct"
    using assms(2) by (simp add: PTP_MAX_SAMPLES_def split: if_splits)
  have "if extended \<noteq> 0 then 3 * 0 + 2 < length pct else 2 * 0 + 2 < length pct"
    using len by simp
  moreover have "3 * 0 + 2 < (2::nat) ^ 31"
    by simp
  ultimately have "read_triplet pct extended (of_nat 0) = Some (spec_bracket pct extended 0)"
    by (rule read_triplet_of_nat)
  then show ?thesis
    by (simp add: sysoff_estimate_first [OF True] split: prod.splits)
next
  case False
  define n where "n = nat (sint n_samples)"
  have lo: "1 < sint n_samples"
    using False by (simp add: word_sle_eq)
  have hi: "sint n_samples \<le> 25"
    using assms(1) by (simp add: word_sle_eq PTP_MAX_SAMPLES_def)
  have n: "1 \<le> n" "n \<le> 25"
    using lo hi by (simp_all add: n_def)
  have "n_samples = word_of_int (sint n_samples)"
    by simp
  also have "\<dots> = of_nat n"
    using lo by (simp add: n_def)
  finally have eq: "n_samples = of_nat n" .
  have "3 * n < 2 ^ 31"
    using n(2) by simp
  moreover have "if extended \<noteq> 0 then 3 * n \<le> length pct else 2 * n + 1 \<le> length pct"
    using assms(2) n(2) by (simp add: PTP_MAX_SAMPLES_def split: if_splits)
  ultimately show ?thesis
    using n(1) by (simp add: eq sysoff_estimate_foldl split: prod.splits)
qed

lemma probe_period:
  "nspct (scast (ucast NS_PER_MSEC :: cint)) zero_pct = \<lparr>sec = 0, nsec = 1000000, reserved = 0\<rparr>"
  by (simp add: nspct_def NS_PER_MSEC_def NS_PER_SEC_def zero_pct_def div_s64_def mod_s64_def
      signed_divide_int_def signed_modulo_int_def)

lemma probe_loop_unrolled:
  "probe_loop h fd n_samples (SYSOFF_CROSS + 1) st out =
     (case sysoff_measure h fd SYSOFF_PRECISE n_samples st out of
        None \<Rightarrow> None
      | Some (r1, st1, out1) \<Rightarrow>
          if 0 \<le> r1 then Some (SYSOFF_PRECISE, st1)
          else
            (case sysoff_measure h fd SYSOFF_EXTENDED n_samples st1 out1 of
               None \<Rightarrow> None
             | Some (r2, st2, out2) \<Rightarrow>
                 if 0 \<le> r2 then Some (SYSOFF_EXTENDED, st2)
                 else
                   (case sysoff_measure h fd SYSOFF_BASIC n_samples st2 out2 of
                      None \<Rightarrow> None
                    | Some (r3, st3, out3) \<Rightarrow>
                        if 0 \<le> r3 then Some (SYSOFF_BASIC, st3)
                        else Some (SYSOFF_RUN_TIME_MISSING, st3))))"
proof -
  have stop: "probe_loop h fd n_samples 4 s o3 = Some (SYSOFF_RUN_TIME_MISSING, s)" for s o3
    by (subst probe_loop.simps) (simp add: SYSOFF_LAST_def)
  have three: "probe_loop h fd n_samples 3 s o2 =
      (case sysoff_measure h fd 3 n_samples s o2 of
         None \<Rightarrow> None
       | Some (r3, st3, out3) \<Rightarrow>
           if 0 \<le> r3 then Some (3, st3) else Some (SYSOFF_RUN_TIME_MISSING, st3))" for s o2
    by (subst probe_loop.simps) (simp add: SYSOFF_LAST_def stop not_less split: option.splits)
  have two: "probe_loop h fd n_samples 2 s o1 =
      (case sysoff_measure h fd 2 n_samples s o1 of
         None \<Rightarrow> None
       | Some (r2, st2, out2) \<Rightarrow>
           if 0 \<le> r2 then Some (2, st2) else probe_loop h fd n_samples 3 st2 out2)" for s o1
    by (subst probe_loop.simps) (simp add: SYSOFF_LAST_def not_less split: option.splits)
  have one: "probe_loop h fd n_samples 1 s o0 =
      (case sysoff_measure h fd 1 n_samples s o0 of
         None \<Rightarrow> None
       | Some (r1, st1, out1) \<Rightarrow>
           if 0 \<le> r1 then Some (1, st1) else probe_loop h fd n_samples 2 st1 out1)" for s o0
    by (subst probe_loop.simps) (simp add: SYSOFF_LAST_def not_less split: option.splits)
  show ?thesis
    by (simp add: SYSOFF_CROSS_def SYSOFF_PRECISE_def SYSOFF_EXTENDED_def SYSOFF_BASIC_def
        one two three split: option.splits)
qed


lemma measure_precise_calls:
  "\<exists>st' out'.
      sysoff_measure h fd SYSOFF_PRECISE n_samples st out =
        Some (if fst (ioctl_precise fd (calls st) zero_precise) = 0
              then SYSOFF_PRECISE else SYSOFF_RUN_TIME_MISSING, st', out')
    \<and> calls st' = calls st @ [Ioctl_PTP_SYS_OFFSET_PRECISE zero_precise]"
  by (cases "ioctl_precise fd (calls st) zero_precise")
    (simp add: sysoff_measure_def sysoff_precise_def SYSOFF_PRECISE_def SYSOFF_CROSS_def
      split: prod.splits)

lemma measure_extended_calls:
  assumes "n_samples \<le>s PTP_MAX_SAMPLES"
    and "length (extended_ts (snd (ioctl_extended fd (calls st)
            (zero_extended\<lparr>extended_n_samples := n_samples\<rparr>)))) = 3 * unat PTP_MAX_SAMPLES"
  shows "\<exists>st' out'.
      sysoff_measure h fd SYSOFF_EXTENDED n_samples st out =
        Some (if fst (ioctl_extended fd (calls st)
                        (zero_extended\<lparr>extended_n_samples := n_samples\<rparr>)) = 0
              then SYSOFF_EXTENDED else SYSOFF_RUN_TIME_MISSING, st', out')
    \<and> calls st' = calls st @
          [Ioctl_PTP_SYS_OFFSET_EXTENDED (zero_extended\<lparr>extended_n_samples := n_samples\<rparr>)]"
proof -
  obtain r psx where io: "ioctl_extended fd (calls st)
      (zero_extended\<lparr>extended_n_samples := n_samples\<rparr>) = (r, psx)"
    by (cases "ioctl_extended fd (calls st) (zero_extended\<lparr>extended_n_samples := n_samples\<rparr>)")
  have "if (1::cint) \<noteq> 0 then 3 * unat PTP_MAX_SAMPLES \<le> length (extended_ts psx)
      else 2 * unat PTP_MAX_SAMPLES + 1 \<le> length (extended_ts psx)"
    using assms(2) io by simp
  with assms(1) obtain est where "sysoff_estimate (extended_ts psx) 1 n_samples = Some est"
    using sysoff_estimate_defined by blast
  then show ?thesis
    by (cases est; cases out)
      (simp add: sysoff_measure_def sysoff_extended_def io SYSOFF_EXTENDED_def
        SYSOFF_PRECISE_def SYSOFF_CROSS_def)
qed

lemma measure_basic_calls:
  assumes "n_samples \<le>s PTP_MAX_SAMPLES"
    and "length (basic_ts (snd (ioctl_basic fd (calls st)
            (zero_basic\<lparr>basic_n_samples := n_samples\<rparr>)))) = 2 * unat PTP_MAX_SAMPLES + 1"
  shows "\<exists>st' out'.
      sysoff_measure h fd SYSOFF_BASIC n_samples st out =
        Some (if fst (ioctl_basic fd (calls st) (zero_basic\<lparr>basic_n_samples := n_samples\<rparr>)) = 0
              then SYSOFF_BASIC else SYSOFF_RUN_TIME_MISSING, st', out')
    \<and> calls st' = calls st @ [Ioctl_PTP_SYS_OFFSET (zero_basic\<lparr>basic_n_samples := n_samples\<rparr>)]"
proof -
  obtain r pso where io: "ioctl_basic fd (calls st)
      (zero_basic\<lparr>basic_n_samples := n_samples\<rparr>) = (r, pso)"
    by (cases "ioctl_basic fd (calls st) (zero_basic\<lparr>basic_n_samples := n_samples\<rparr>)")
  have "if (0::cint) \<noteq> 0 then 3 * unat PTP_MAX_SAMPLES \<le> length (basic_ts pso)
      else 2 * unat PTP_MAX_SAMPLES + 1 \<le> length (basic_ts pso)"
    using assms(2) io by simp
  with assms(1) obtain est where "sysoff_estimate (basic_ts pso) 0 n_samples = Some est"
    using sysoff_estimate_defined by blast
  then show ?thesis
    by (cases est; cases out)
      (simp add: sysoff_measure_def sysoff_basic_def io SYSOFF_EXTENDED_def SYSOFF_BASIC_def
        SYSOFF_PRECISE_def SYSOFF_CROSS_def)
qed

text \<open>
  Claim C3. Let \<open>n_samples\<close> not exceed \<open>PTP_MAX_SAMPLES\<close>, and let the driver return
  the Extended and Basic structures with their arrays at the declared length. The prober
  first asks for periodic cross-timestamping with a period of one millisecond. If that
  request succeeds the result is \<open>SYSOFF_CROSS\<close> and no other request has been made.
  Otherwise the Precise, Extended and Basic requests are made in this order, up to the
  first that succeeds, whose method is the result; if none succeeds the result is
  \<open>SYSOFF_RUN_TIME_MISSING\<close>. The lists \<open>c1\<close> to \<open>c4\<close> are the requests made so far.
\<close>

theorem sysoff_probe_priority:
  assumes "\<not> PTP_MAX_SAMPLES <s n_samples"
    and "c1 = calls st @ [Ioctl_PTP_CROSSTS_REQUEST
            \<lparr>crossts_period = \<lparr>sec = 0, nsec = 1000000, reserved = 0\<rparr>\<rparr>]"
    and "c2 = c1 @ [Ioctl_PTP_SYS_OFFSET_PRECISE zero_precise]"
    and "c3 = c2 @ [Ioctl_PTP_SYS_OFFSET_EXTENDED (zero_extended\<lparr>extended_n_samples := n_samples\<rparr>)]"
    and "c4 = c3 @ [Ioctl_PTP_SYS_OFFSET (zero_basic\<lparr>basic_n_samples := n_samples\<rparr>)]"
    and "length (extended_ts (snd (ioctl_extended fd c2
            (zero_extended\<lparr>extended_n_samples := n_samples\<rparr>)))) = 3 * unat PTP_MAX_SAMPLES"
    and "length (basic_ts (snd (ioctl_basic fd c3
            (zero_basic\<lparr>basic_n_samples := n_samples\<rparr>)))) = 2 * unat PTP_MAX_SAMPLES + 1"
  shows "map_option (\<lambda>(r, st'). (r, calls st')) (sysoff_probe h fd n_samples st out) =
     Some (if ioctl_crossts fd (calls st)
                \<lparr>crossts_period = \<lparr>sec = 0, nsec = 1000000, reserved = 0\<rparr>\<rparr> = 0
           then (SYSOFF_CROSS, c1)
           else if fst (ioctl_precise fd c1 zero_precise) = 0 then (SYSOFF_PRECISE, c2)
           else if fst (ioctl_extended fd c2 (zero_extended\<lparr>extended_n_samples := n_samples\<rparr>)) = 0
           then (SYSOFF_EXTENDED, c3)
           else if fst (ioctl_basic fd c3 (zero_basic\<lparr>basic_n_samples := n_samples\<rparr>)) = 0
           then (SYSOFF_BASIC, c4)
           else (SYSOFF_RUN_TIME_MISSING, c4))"
proof -
  let ?cross = "\<lparr>crossts_period = \<lparr>sec = 0, nsec = 1000000, reserved = 0\<rparr>\<rparr>"
  have le: "n_samples \<le>s PTP_MAX_SAMPLES"
    using assms(1) by (simp add: word_sle_eq word_sless_alt)
  have enable: "sysoff_cross_enable fd (ucast NS_PER_MSEC) st =
      (if ioctl_crossts fd (calls st) ?cross = 0 then (SYSOFF_CROSS, called (Ioctl_PTP_CROSSTS_REQUEST ?cross) st)
       else (SYSOFF_RUN_TIME_MISSING,
             said (Pr_debug ''ioctl PTP_CROSSTS_REQUEST: %m'')
               (called (Ioctl_PTP_CROSSTS_REQUEST ?cross) st)))"
    by (simp add: sysoff_cross_enable_def zero_crossts_def probe_period Let_def)
  show ?thesis
  proof (cases "ioctl_crossts fd (calls st) ?cross = 0")
    case True
    then show ?thesis
      using assms(1)
      by (simp add: sysoff_probe_def enable SYSOFF_CROSS_def assms(2))
  next
    case False
    define st1 where "st1 = said (Pr_debug ''ioctl PTP_CROSSTS_REQUEST: %m'')
        (called (Ioctl_PTP_CROSSTS_REQUEST ?cross) st)"
    have c1: "calls st1 = c1"
      by (simp add: st1_def assms(2))
    have probe: "sysoff_probe h fd n_samples st out = probe_loop h fd n_samples (SYSOFF_CROSS + 1) st1 out"
      using assms(1) False
      by (simp add: sysoff_probe_def enable SYSOFF_RUN_TIME_MISSING_def st1_def)
    obtain st2 out2 where m1: "sysoff_measure h fd SYSOFF_PRECISE n_samples st1 out =
        Some (if fst (ioctl_precise fd c1 zero_precise) = 0
              then SYSOFF_PRECISE else SYSOFF_RUN_TIME_MISSING, st2, out2)"
      and c2: "calls st2 = c2"
      using measure_precise_calls [of h fd n_samples st1 out] unfolding c1 assms(3) by blast
    have len2: "length (extended_ts (snd (ioctl_extended fd (calls st2)
            (zero_extended\<lparr>extended_n_samples := n_samples\<rparr>)))) = 3 * unat PTP_MAX_SAMPLES"
      using assms(6) by (simp only: c2)
    obtain st3 out3 where m2: "sysoff_measure h fd SYSOFF_EXTENDED n_samples st2 out2 =
        Some (if fst (ioctl_extended fd c2 (zero_extended\<lparr>extended_n_samples := n_samples\<rparr>)) = 0
              then SYSOFF_EXTENDED else SYSOFF_RUN_TIME_MISSING, st3, out3)"
      and c3: "calls st3 = c3"
      using measure_extended_calls [OF le len2, of h out2] unfolding c2 assms(4) by blast
    have len3: "length (basic_ts (snd (ioctl_basic fd (calls st3)
            (zero_basic\<lparr>basic_n_samples := n_samples\<rparr>)))) = 2 * unat PTP_MAX_SAMPLES + 1"
      using assms(7) by (simp only: c3)
    obtain st4 out4 where m3: "sysoff_measure h fd SYSOFF_BASIC n_samples st3 out3 =
        Some (if fst (ioctl_basic fd c3 (zero_basic\<lparr>basic_n_samples := n_samples\<rparr>)) = 0
              then SYSOFF_BASIC else SYSOFF_RUN_TIME_MISSING, st4, out4)"
      and c4: "calls st4 = c4"
      using measure_basic_calls [OF le len3, of h out3] unfolding c3 assms(5) by blast
    have codes: "0 \<le> SYSOFF_PRECISE" "0 \<le> SYSOFF_EXTENDED" "0 \<le> SYSOFF_BASIC"
      "\<not> 0 \<le> SYSOFF_RUN_TIME_MISSING"
      by (simp_all add: SYSOFF_PRECISE_def SYSOFF_EXTENDED_def SYSOFF_BASIC_def
          SYSOFF_RUN_TIME_MISSING_def)
    show ?thesis
      using False by (simp add: probe probe_loop_unrolled m1 m2 m3 c2 c3 c4 codes)
  qed
qed

theorem sysoff_probe_priority_witness:
  "map_option (\<lambda>(r, st'). (r, calls st'))
     (sysoff_probe example_header (no_device\<lparr>ioctl_crossts := (\<lambda>cs cross. 0)\<rparr>) 5 start (7, 7, 7))
   = Some (SYSOFF_CROSS,
           [Ioctl_PTP_CROSSTS_REQUEST \<lparr>crossts_period = \<lparr>sec = 0, nsec = 1000000, reserved = 0\<rparr>\<rparr>])
   \<and> map_option (\<lambda>(r, st'). (r, calls st'))
     (sysoff_probe example_header (no_device\<lparr>ioctl_extended := (\<lambda>cs pso. (0, pso))\<rparr>) 5 start (7, 7, 7))
   = Some (SYSOFF_EXTENDED,
           [Ioctl_PTP_CROSSTS_REQUEST \<lparr>crossts_period = \<lparr>sec = 0, nsec = 1000000, reserved = 0\<rparr>\<rparr>,
            Ioctl_PTP_SYS_OFFSET_PRECISE zero_precise,
            Ioctl_PTP_SYS_OFFSET_EXTENDED (zero_extended\<lparr>extended_n_samples := 5\<rparr>)])
   \<and> map_option (\<lambda>(r, st'). (r, calls st'))
     (sysoff_probe example_header no_device 5 start (7, 7, 7))
   = Some (SYSOFF_RUN_TIME_MISSING,
           [Ioctl_PTP_CROSSTS_REQUEST \<lparr>crossts_period = \<lparr>sec = 0, nsec = 1000000, reserved = 0\<rparr>\<rparr>,
            Ioctl_PTP_SYS_OFFSET_PRECISE zero_precise,
            Ioctl_PTP_SYS_OFFSET_EXTENDED (zero_extended\<lparr>extended_n_samples := 5\<rparr>),
            Ioctl_PTP_SYS_OFFSET (zero_basic\<lparr>basic_n_samples := 5\<rparr>)])"
proof -
  let ?c1 = "[Ioctl_PTP_CROSSTS_REQUEST \<lparr>crossts_period = \<lparr>sec = 0, nsec = 1000000, reserved = 0\<rparr>\<rparr>]"
  let ?c2 = "?c1 @ [Ioctl_PTP_SYS_OFFSET_PRECISE zero_precise]"
  let ?c3 = "?c2 @ [Ioctl_PTP_SYS_OFFSET_EXTENDED (zero_extended\<lparr>extended_n_samples := 5\<rparr>)]"
  let ?c4 = "?c3 @ [Ioctl_PTP_SYS_OFFSET (zero_basic\<lparr>basic_n_samples := 5\<rparr>)]"
  have n: "\<not> PTP_MAX_SAMPLES <s 5"
    by (simp add: PTP_MAX_SAMPLES_def word_sless_alt)
  have len: "length (extended_ts zero_extended) = 3 * unat PTP_MAX_SAMPLES"
    "length (basic_ts zero_basic) = Suc (2 * unat PTP_MAX_SAMPLES)"
    by (simp_all add: zero_extended_def zero_basic_def)
  have c: "calls start = []"
    by (simp add: start_def)
  show ?thesis
    using
      sysoff_probe_priority
        [where n_samples = 5 and st = start and h = example_header and out = "(7, 7, 7)"
           and fd = "no_device\<lparr>ioctl_crossts := (\<lambda>cs cross. 0)\<rparr>"
           and ?c1.0 = ?c1 and ?c2.0 = ?c2 and ?c3.0 = ?c3 and ?c4.0 = ?c4]
      sysoff_probe_priority
        [where n_samples = 5 and st = start and h = example_header and out = "(7, 7, 7)"
           and fd = "no_device\<lparr>ioctl_extended := (\<lambda>cs pso. (0, pso))\<rparr>"
           and ?c1.0 = ?c1 and ?c2.0 = ?c2 and ?c3.0 = ?c3 and ?c4.0 = ?c4]
      sysoff_probe_priority
        [where n_samples = 5 and st = start and h = example_header and out = "(7, 7, 7)"
           and fd = no_device
           and ?c1.0 = ?c1 and ?c2.0 = ?c2 and ?c3.0 = ?c3 and ?c4.0 = ?c4]
    by (simp add: n len c no_device_def)
qed

end
